theory Spec2Isabelle
  imports Main
begin

section \<open>Strings as the generator uses them\<close>

text \<open>
  The generator \<^verbatim>\<open>book/generate-dita.py\<close> works on Python strings. They are modelled as
  \<^typ>\<open>string\<close>, a character standing for a code point below 256. \<open>is_space\<close> holds of
  the characters that \<^verbatim>\<open>str.strip()\<close> removes and \<^verbatim>\<open>\s\<close> matches, \<open>is_digit\<close> of the
  decimal digits that \<^verbatim>\<open>\d\<close> and \<^verbatim>\<open>int\<close> accept, \<open>isdigit\<close> of the characters of which
  \<^verbatim>\<open>str.isdigit()\<close> is true (the superscripts one, two and three as well).
\<close>

definition is_space :: "char \<Rightarrow> bool" where
  "is_space c = (c \<in> set [CHR 0x09, CHR 0x0A, CHR 0x0B, CHR 0x0C, CHR 0x0D,
                           CHR 0x1C, CHR 0x1D, CHR 0x1E, CHR 0x1F, CHR 0x20,
                           CHR 0x85, CHR 0xA0])"

definition is_digit :: "char \<Rightarrow> bool" where
  "is_digit c = (c \<in> set ''0123456789'')"

definition isdigit :: "char \<Rightarrow> bool" where
  "isdigit c = (is_digit c \<or> c \<in> set [CHR 0xB2, CHR 0xB3, CHR 0xB9])"

text \<open>\<^verbatim>\<open>s.strip()\<close>, \<^verbatim>\<open>s.lstrip(chars)\<close>, \<^verbatim>\<open>s.startswith(p)\<close>, \<^verbatim>\<open>s.endswith(p)\<close>.\<close>

definition strip :: "string \<Rightarrow> string" where
  "strip s = rev (dropWhile is_space (rev (dropWhile is_space s)))"

definition lstrip_chars :: "string \<Rightarrow> string \<Rightarrow> string" where
  "lstrip_chars chars s = dropWhile (\<lambda>c. c \<in> set chars) s"

definition startswith :: "string \<Rightarrow> string \<Rightarrow> bool" where
  "startswith s p = (take (length p) s = p)"

definition endswith :: "string \<Rightarrow> string \<Rightarrow> bool" where
  "endswith s p = (length p \<le> length s \<and> drop (length s - length p) s = p)"

section \<open>The parsed document tree\<close>

text \<open>
  BeautifulSoup hands the generator a tree of tags and strings. A tag has a name, a
  dictionary of attributes (an association list with distinct keys) and children; a
  string node (\<^verbatim>\<open>NavigableString\<close>) has no name.
\<close>

datatype node = Text string | Tag string "(string \<times> string) list" "node list"

fun tag_name :: "node \<Rightarrow> string option" where
  "tag_name (Text s) = None"
| "tag_name (Tag n as cs) = Some n"

fun children :: "node \<Rightarrow> node list" where
  "children (Text s) = []"
| "children (Tag n as cs) = cs"

fun attrs :: "node \<Rightarrow> (string \<times> string) list" where
  "attrs (Text s) = []"
| "attrs (Tag n as cs) = as"

text \<open>\<^verbatim>\<open>tag.get(k)\<close> and \<^verbatim>\<open>tag.get(k, "")\<close>.\<close>

definition get_attr :: "node \<Rightarrow> string \<Rightarrow> string option" where
  "get_attr n k = map_of (attrs n) k"

definition get_attr_default :: "node \<Rightarrow> string \<Rightarrow> string" where
  "get_attr_default n k = (case get_attr n k of None \<Rightarrow> [] | Some v \<Rightarrow> v)"

text \<open>\<^verbatim>\<open>get_text()\<close> joins every string below a node, in document order.\<close>

fun get_text :: "node \<Rightarrow> string" where
  "get_text (Text s) = s"
| "get_text (Tag n as cs) = concat (map get_text cs)"

section \<open>Inline or standalone images\<close>

text \<open>
  \<^verbatim>\<open>is_inline_image(img_element)\<close> looks only at the parent of the image, so the model
  takes the parent (\<open>None\<close> when the image has none). The loop over the parent's children
  accumulates \<^verbatim>\<open>text_content\<close>; \<open>text_step\<close> is one iteration: every child named
  \<^verbatim>\<open>img\<close> is left out, any other tag adds its \<^verbatim>\<open>get_text()\<close>, a string adds itself.
\<close>

definition text_step :: "string \<Rightarrow> node \<Rightarrow> string" where
  "text_step text_content child =
     (if tag_name child \<noteq> Some ''img'' then text_content @ get_text child
      else text_content)"

definition block_parents :: "string list" where
  "block_parents = [''p'', ''div'', ''li'', ''td'', ''th'']"

definition is_inline_image :: "node option \<Rightarrow> bool" where
  "is_inline_image parent =
     (case parent of
        None \<Rightarrow> False
      | Some p \<Rightarrow>
          if tag_name p = Some ''span'' then True
          else if tag_name p \<in> Some ` set block_parents
                  \<and> strip (foldl text_step [] (children p)) \<noteq> [] then True
          else False)"

section \<open>More string and path operations\<close>

text \<open>The double quote and the apostrophe, which cannot be written inside a literal.\<close>

definition dq :: string where
  "dq = [CHR 0x22]"

definition apos :: string where
  "apos = [CHR 0x27]"

text \<open>\<^verbatim>\<open>s.split(c)\<close> for a one-character separator, and \<^verbatim>\<open>sep.join(xs)\<close>.\<close>

fun split_on :: "char \<Rightarrow> string \<Rightarrow> string list" where
  "split_on c [] = [[]]"
| "split_on c (x # xs) =
     (if x = c then [] # split_on c xs
      else (case split_on c xs of [] \<Rightarrow> [[x]] | w # ws \<Rightarrow> (x # w) # ws))"

fun join :: "string \<Rightarrow> string list \<Rightarrow> string" where
  "join sep [] = []"
| "join sep [x] = x"
| "join sep (x # y # ys) = x @ sep @ join sep (y # ys)"

text \<open>\<^verbatim>\<open>s.replace(c, r)\<close> for a one-character pattern, and \<^verbatim>\<open>escape_xml\<close>.\<close>

definition replace_char :: "char \<Rightarrow> string \<Rightarrow> string \<Rightarrow> string" where
  "replace_char c r s = concat (map (\<lambda>x. if x = c then r else [x]) s)"

definition escape_xml :: "string \<Rightarrow> string" where
  "escape_xml text =
     replace_char (CHR 0x27) ''&apos;''
       (replace_char (CHR 0x22) ''&quot;''
         (replace_char (CHR ''>'') ''&gt;''
           (replace_char (CHR ''<'') ''&lt;''
             (replace_char (CHR ''&'') ''&amp;'' text))))"

text \<open>The decimal numeral that an f-string prints for a natural number.\<close>

definition digit_char :: "nat \<Rightarrow> char" where
  "digit_char d = char_of (48 + d)"

function str_of_nat :: "nat \<Rightarrow> string" where
  "str_of_nat n = (if n < 10 then [digit_char n]
                   else str_of_nat (n div 10) @ [digit_char (n mod 10)])"
  by pat_completeness auto
termination
  by (relation "measure id") auto

declare str_of_nat.simps [simp del]

text \<open>\<^verbatim>\<open>os.path.join(a, b)\<close> and \<^verbatim>\<open>os.path.normpath(path)\<close> of \<^verbatim>\<open>posixpath\<close>.\<close>

definition path_join :: "string \<Rightarrow> string \<Rightarrow> string" where
  "path_join a b =
     (if startswith b ''/'' then b
      else if a = [] \<or> endswith a ''/'' then a @ b
      else a @ ''/'' @ b)"

definition normpath_step :: "nat \<Rightarrow> string list \<Rightarrow> string \<Rightarrow> string list" where
  "normpath_step initial_slashes new_comps part =
     (if part = [] \<or> part = ''.'' then new_comps
      else if part \<noteq> ''..'' \<or> (initial_slashes = 0 \<and> new_comps = [])
                \<or> (new_comps \<noteq> [] \<and> last new_comps = ''..'')
        then new_comps @ [part]
      else if new_comps \<noteq> [] then butlast new_comps
      else new_comps)"

definition normpath :: "string \<Rightarrow> string" where
  "normpath path =
     (if path = [] then ''.''
      else
        let initial_slashes =
              (if startswith path ''/''
               then (if startswith path ''//'' \<and> \<not> startswith path ''///'' then 2 else 1)
               else 0);
            comps = foldl (normpath_step initial_slashes) [] (split_on (CHR ''/'') path);
            joined = replicate initial_slashes (CHR ''/'') @ join ''/'' comps
        in if joined = [] then ''.'' else joined)"

text \<open>\<^verbatim>\<open>normalize_path(path)\<close>.\<close>

definition html_to_md :: "string \<Rightarrow> string" where
  "html_to_md path =
     (if endswith path ''.html'' then take (length path - 5) path @ ''.md'' else path)"

definition normalize_path :: "string \<Rightarrow> string" where
  "normalize_path path =
     normpath (html_to_md (lstrip_chars ''/'' (lstrip_chars ''./'' path)))"

section \<open>Searching the tree\<close>

text \<open>
  \<^verbatim>\<open>tag.find(...)\<close> and \<^verbatim>\<open>tag.find_all(...)\<close> walk the descendants of a tag in document
  order; with \<^verbatim>\<open>recursive=False\<close> they look at the children only.
\<close>

fun descendants :: "node \<Rightarrow> node list" where
  "descendants (Text s) = []"
| "descendants (Tag n as cs) = concat (map (\<lambda>c. c # descendants c) cs)"

definition find_first :: "(node \<Rightarrow> bool) \<Rightarrow> node \<Rightarrow> node option" where
  "find_first P n = List.find P (descendants n)"

definition find_direct :: "(node \<Rightarrow> bool) \<Rightarrow> node \<Rightarrow> node option" where
  "find_direct P n = List.find P (children n)"

definition find_all :: "(node \<Rightarrow> bool) \<Rightarrow> node \<Rightarrow> node list" where
  "find_all P n = filter P (descendants n)"

definition find_all_direct :: "(node \<Rightarrow> bool) \<Rightarrow> node \<Rightarrow> node list" where
  "find_all_direct P n = filter P (children n)"

definition named :: "string list \<Rightarrow> node \<Rightarrow> bool" where
  "named names n = (case tag_name n of None \<Rightarrow> False | Some x \<Rightarrow> x \<in> set names)"

definition is_a_href :: "node \<Rightarrow> bool" where
  "is_a_href n = (named [''a''] n \<and> get_attr n ''href'' \<noteq> None)"

definition is_text :: "node \<Rightarrow> bool" where
  "is_text n = (tag_name n = None)"

text \<open>
  \<^verbatim>\<open>get_text(strip=True)\<close> strips every string below the node, drops the empty ones and
  joins the rest.
\<close>

fun all_strings :: "node \<Rightarrow> string list" where
  "all_strings (Text s) = [s]"
| "all_strings (Tag n as cs) = concat (map all_strings cs)"

definition get_text_strip :: "node \<Rightarrow> string" where
  "get_text_strip n = concat (filter (\<lambda>s. s \<noteq> []) (map strip (all_strings n)))"

section \<open>The corpus index\<close>

text \<open>
  The first pass of \<^verbatim>\<open>build_dita_map\<close> keeps three variables: \<^verbatim>\<open>topic_counter\<close>,
  the dictionary \<^verbatim>\<open>file_to_topic\<close> (in insertion order, as Python keeps it) and the
  list \<^verbatim>\<open>files_to_process\<close> of tuples \<^verbatim>\<open>(href, topic_id, title, topic_filename)\<close>.
\<close>

record topic_info =
  ti_id :: string
  ti_filename :: string
  ti_title :: string

record indexer_state =
  topic_counter :: nat
  file_to_topic :: "(string \<times> topic_info) list"
  files_to_process :: "(string \<times> string \<times> string \<times> string) list"

definition initial_state :: indexer_state where
  "initial_state = \<lparr>topic_counter = 0, file_to_topic = [], files_to_process = []\<rparr>"

definition is_url :: "string \<Rightarrow> bool" where
  "is_url href = (startswith href ''http://'' \<or> startswith href ''https://'')"

text \<open>The path of an outline link: lines 723 to 730, the same as lines 792 to 799.\<close>

definition outline_path :: "string \<Rightarrow> string \<Rightarrow> string" where
  "outline_path base_path href =
     html_to_md (path_join base_path
       (if startswith href ''/'' then ''.'' @ href
        else if \<not> startswith href ''./'' then ''./'' @ href
        else href))"

text \<open>Lines 732 to 744: a key that is not yet in \<^verbatim>\<open>file_to_topic\<close> gets the next topic.\<close>

definition register_link :: "string \<Rightarrow> string \<Rightarrow> string \<Rightarrow> indexer_state \<Rightarrow> indexer_state" where
  "register_link base_path link_title link_href st =
     (let href = outline_path base_path link_href;
          normalized = normalize_path href
      in if map_of (file_to_topic st) normalized = None
         then
           let counter = topic_counter st + 1;
               topic_id = ''topic_'' @ str_of_nat counter;
               topic_filename = topic_id @ ''.dita''
           in \<lparr>topic_counter = counter,
               file_to_topic = file_to_topic st @
                 [(normalized, \<lparr>ti_id = topic_id, ti_filename = topic_filename,
                                 ti_title = link_title\<rparr>)],
               files_to_process = files_to_process st @
                 [(href, topic_id, link_title, topic_filename)]\<rparr>
         else st)"

lemma size_find_Some: "List.find P xs = Some x \<Longrightarrow> size x < size_list size xs"
  by (induction xs) (auto split: if_splits)

lemma size_list_filter_le: "size_list f (filter P xs) \<le> size_list f xs"
  by (induction xs) auto

lemma size_children_le: "size_list size (children n) \<le> size n"
  by (cases n) auto

lemma size_items_of_found:
  "List.find P (children li) = Some ol \<Longrightarrow>
   size_list size (filter Q (children ol)) < Suc (size li + size_list size lis)"
proof -
  assume "List.find P (children li) = Some ol"
  then have "size ol < size_list size (children li)" by (rule size_find_Some)
  moreover have "size_list size (filter Q (children ol)) \<le> size ol"
    using size_list_filter_le [of size Q "children ol"] size_children_le [of ol] by linarith
  moreover have "size_list size (children li) \<le> size li" by (rule size_children_le)
  ultimately show ?thesis by linarith
qed

text \<open>
  \<^verbatim>\<open>collect_files(ol)\<close> loops over the \<^verbatim>\<open>li\<close> children of a list; \<open>collect_items\<close> is that
  loop, threading the three variables. The link of an item is searched among all its
  descendants (line 709), its nested list among its children (line 710).
\<close>

function collect_items :: "string \<Rightarrow> node list \<Rightarrow> indexer_state \<Rightarrow> indexer_state" where
  "collect_items base_path [] st = st"
| "collect_items base_path (li # lis) st =
     (let link_tag = find_first is_a_href li;
          nested_ol = find_direct (named [''ol'', ''ul'']) li;
          st1 = (case link_tag of
                   Some a \<Rightarrow>
                     if is_url (get_attr_default a ''href'') then st
                     else register_link base_path (get_text_strip a)
                            (get_attr_default a ''href'') st
                 | None \<Rightarrow> st);
          st2 = (case nested_ol of
                   Some ol \<Rightarrow>
                     collect_items base_path (find_all_direct (named [''li'']) ol) st1
                 | None \<Rightarrow> st1)
      in collect_items base_path lis st2)"
  by pat_completeness auto
termination
  by (relation "measure (\<lambda>(b, lis, st). size_list size lis)")
     (auto simp: find_direct_def find_all_direct_def size_items_of_found)

definition collect_files :: "string \<Rightarrow> node \<Rightarrow> indexer_state \<Rightarrow> indexer_state" where
  "collect_files base_path ol st =
     collect_items base_path (find_all_direct (named [''li'']) ol) st"

text \<open>
  Lines 749 to 751: the outline is the first list of the parsed table of contents; the
  soup is given by its top-level nodes.
\<close>

definition soup :: "node list \<Rightarrow> node" where
  "soup nodes = Tag ''[document]'' [] nodes"

definition build_index :: "string \<Rightarrow> node list \<Rightarrow> indexer_state" where
  "build_index base_path toc =
     (case find_first (named [''ol'', ''ul'']) (soup toc) of
        Some top_ol \<Rightarrow> collect_files base_path top_ol initial_state
      | None \<Rightarrow> initial_state)"

text \<open>
  The links that the traversal of \<open>collect_items\<close> hands to the index, in the order in
  which it reaches them: the visible title and the \<^verbatim>\<open>href\<close> of every link that is not
  a URL. \<open>encounters\<close> pairs the normalized key of each with its title.
\<close>

function visited_links :: "node list \<Rightarrow> (string \<times> string) list" where
  "visited_links [] = []"
| "visited_links (li # lis) =
     (case find_first is_a_href li of
        Some a \<Rightarrow> if is_url (get_attr_default a ''href'') then []
                  else [(get_text_strip a, get_attr_default a ''href'')]
      | None \<Rightarrow> [])
     @ (case find_direct (named [''ol'', ''ul'']) li of
          Some ol \<Rightarrow> visited_links (find_all_direct (named [''li'']) ol)
        | None \<Rightarrow> [])
     @ visited_links lis"
  by pat_completeness auto
termination
  by (relation "measure (size_list size)")
     (auto simp: find_direct_def find_all_direct_def size_items_of_found)

definition link_key :: "string \<Rightarrow> string \<times> string \<Rightarrow> string \<times> string" where
  "link_key base_path l = (normalize_path (outline_path base_path (snd l)), fst l)"

definition encounters :: "string \<Rightarrow> node list \<Rightarrow> (string \<times> string) list" where
  "encounters base_path toc =
     (case find_first (named [''ol'', ''ul'']) (soup toc) of
        Some top_ol \<Rightarrow>
          map (link_key base_path) (visited_links (find_all_direct (named [''li'']) top_ol))
      | None \<Rightarrow> [])"

text \<open>The keys of a sequence of encounters, each at its first occurrence only.\<close>

definition first_occurrences :: "'a list \<Rightarrow> 'a list" where
  "first_occurrences xs = rev (remdups (rev xs))"

definition topic_name :: "nat \<Rightarrow> string" where
  "topic_name i = ''topic_'' @ str_of_nat i"

text \<open>
  One registration as a step on the state, and the index that a sequence of encounters
  (key, title) determines: the keys at their first occurrence, numbered from 1, each with
  the title of its first occurrence.
\<close>

definition index_step :: "string \<Rightarrow> indexer_state \<Rightarrow> string \<times> string \<Rightarrow> indexer_state" where
  "index_step base_path st l = register_link base_path (fst l) (snd l) st"

definition topic_record :: "nat \<Rightarrow> string \<Rightarrow> topic_info" where
  "topic_record i t =
     \<lparr>ti_id = topic_name i, ti_filename = topic_name i @ ''.dita'', ti_title = t\<rparr>"

definition first_title :: "(string \<times> string) list \<Rightarrow> string \<Rightarrow> string" where
  "first_title E k = (case map_of E k of Some t \<Rightarrow> t | None \<Rightarrow> [])"

definition index_of_encounters :: "(string \<times> string) list \<Rightarrow> (string \<times> topic_info) list" where
  "index_of_encounters E =
     map (\<lambda>(i, k). (k, topic_record (Suc i) (first_title E k)))
       (enumerate 0 (first_occurrences (map fst E)))"

section \<open>The map\<close>

text \<open>
  The third pass, \<^verbatim>\<open>build_map_structure(ol, level, indent)\<close>, appends lines to
  \<^verbatim>\<open>ditamap_parts\<close>; \<open>build_items\<close> is its loop over the \<^verbatim>\<open>li\<close> children and returns
  the lines appended. The link of an item is searched among its children only (line 777).
  \<^verbatim>\<open>level\<close> is passed along and never read.
\<close>

function build_items ::
  "(string \<times> topic_info) list \<Rightarrow> string \<Rightarrow> node list \<Rightarrow> string \<Rightarrow> string list" where
  "build_items ftt base_path [] indent = []"
| "build_items ftt base_path (li # lis) indent =
     (let link_tag = find_direct is_a_href li;
          nested_ol = find_direct (named [''ol'', ''ul'']) li
      in (case link_tag of
            Some a \<Rightarrow>
              if is_url (get_attr_default a ''href'') then
                (case nested_ol of
                   Some ol \<Rightarrow>
                     build_items ftt base_path (find_all_direct (named [''li'']) ol) indent
                 | None \<Rightarrow> [])
              else
                (case map_of ftt (normalize_path
                        (outline_path base_path (get_attr_default a ''href''))) of
                   Some topic_info \<Rightarrow>
                     (case nested_ol of
                        Some ol \<Rightarrow>
                          [indent @ ''<topicref href='' @ dq @ ti_filename topic_info @ dq @ ''>'']
                          @ build_items ftt base_path
                              (find_all_direct (named [''li'']) ol) (indent @ ''  '')
                          @ [indent @ ''</topicref>'']
                      | None \<Rightarrow>
                          [indent @ ''<topicref href='' @ dq @ ti_filename topic_info @ dq @ ''/>''])
                 | None \<Rightarrow> [])
          | None \<Rightarrow>
              (case find_direct is_text li of
                 Some title_text \<Rightarrow>
                   if get_text title_text \<noteq> [] then
                     (if strip (get_text title_text) \<noteq> [] then
                        [indent @ ''<topichead navtitle='' @ dq
                           @ escape_xml (strip (get_text title_text)) @ dq @ ''>'']
                        @ (case nested_ol of
                             Some ol \<Rightarrow>
                               build_items ftt base_path
                                 (find_all_direct (named [''li'']) ol) (indent @ ''  '')
                           | None \<Rightarrow> [])
                        @ [indent @ ''</topichead>'']
                      else [])
                   else
                     (case nested_ol of
                        Some ol \<Rightarrow>
                          build_items ftt base_path (find_all_direct (named [''li'']) ol) indent
                      | None \<Rightarrow> [])
               | None \<Rightarrow>
                   (case nested_ol of
                      Some ol \<Rightarrow>
                        build_items ftt base_path (find_all_direct (named [''li'']) ol) indent
                    | None \<Rightarrow> [])))
         @ build_items ftt base_path lis indent)"
  by pat_completeness auto
termination
  by (relation "measure (\<lambda>(f, b, lis, i). size_list size lis)")
     (auto simp: find_direct_def find_all_direct_def size_items_of_found)

definition build_map_structure ::
  "(string \<times> topic_info) list \<Rightarrow> string \<Rightarrow> node \<Rightarrow> string \<Rightarrow> string list" where
  "build_map_structure ftt base_path ol indent =
     build_items ftt base_path (find_all_direct (named [''li'']) ol) indent"

section \<open>Canonical outlines\<close>

text \<open>
  The canonical outline of the specification: a forest of links (title, target,
  children) and containers (label, children). \<open>ol_of\<close> is the nested list that the
  Markdown library renders for it and that the passes above read: an item holds its link
  or its label first, then the list of its children; a line break follows every opening
  and closing tag of a list and every closed item.
\<close>

datatype outline = Link string string "outline list" | Container string "outline list"

definition nl :: string where
  "nl = [CHR 0x0A]"

definition list_node :: "node list \<Rightarrow> node" where
  "list_node items = Tag ''ol'' [] (Text nl # concat (map (\<lambda>i. [i, Text nl]) items))"

fun li_of :: "outline \<Rightarrow> node" where
  "li_of (Link t h cs) =
     Tag ''li'' [] (Tag ''a'' [(''href'', h)] [Text t]
       # (if cs = [] then [] else [list_node (map li_of cs), Text nl]))"
| "li_of (Container l cs) =
     Tag ''li'' [] ((if l = [] then [] else [Text l])
       @ (if cs = [] then [] else [list_node (map li_of cs), Text nl]))"

definition ol_of :: "outline list \<Rightarrow> node" where
  "ol_of ns = list_node (map li_of ns)"

text \<open>Every container of the outline carries a label that is not only whitespace.\<close>

fun labelled :: "outline \<Rightarrow> bool" where
  "labelled (Link t h cs) = list_all labelled cs"
| "labelled (Container l cs) = (strip l \<noteq> [] \<and> list_all labelled cs)"

text \<open>A container without a label over two links.\<close>

definition unlabelled_outline :: "outline list" where
  "unlabelled_outline = [Container [] [Link ''A'' ''a.html'' [], Link ''B'' ''b.html'' []]]"

text \<open>
  The shape of a map: a leaf reference, a container reference around its children, or a
  heading around its children; \<open>render\<close> writes it with the indentation of the generator.
\<close>

datatype map_node = Leaf string | Ref string "map_node list" | Head string "map_node list"

fun render :: "string \<Rightarrow> map_node \<Rightarrow> string list" where
  "render indent (Leaf fn) = [indent @ ''<topicref href='' @ dq @ fn @ dq @ ''/>'']"
| "render indent (Ref fn ms) =
     [indent @ ''<topicref href='' @ dq @ fn @ dq @ ''>'']
     @ concat (map (render (indent @ ''  '')) ms)
     @ [indent @ ''</topicref>'']"
| "render indent (Head label ms) =
     [indent @ ''<topichead navtitle='' @ dq @ escape_xml label @ dq @ ''>'']
     @ concat (map (render (indent @ ''  '')) ms)
     @ [indent @ ''</topichead>'']"

text \<open>
  The shape that the specification gives the map of an outline, with the filename that
  \<open>fname\<close> assigns to a link target: a link with children is a container reference, a
  link without children a leaf, a link to a URL gives way to its children, a labelled
  container is a heading.
\<close>

fun shape :: "(string \<Rightarrow> string) \<Rightarrow> outline \<Rightarrow> map_node list" where
  "shape fname (Link t h cs) =
     (if is_url h then concat (map (shape fname) cs)
      else if cs = [] then [Leaf (fname h)]
      else [Ref (fname h) (concat (map (shape fname) cs))])"
| "shape fname (Container l cs) = [Head (strip l) (concat (map (shape fname) cs))]"

definition assigned_filename :: "(string \<times> topic_info) list \<Rightarrow> string \<Rightarrow> string \<Rightarrow> string" where
  "assigned_filename ftt base_path h =
     (case map_of ftt (normalize_path (outline_path base_path h)) of
        Some topic_info \<Rightarrow> ti_filename topic_info
      | None \<Rightarrow> [])"

text \<open>
  The depth-first, left-to-right traversal of an outline: \<open>all_links\<close> lists the title
  and target of every link, \<open>dfs_links\<close> keeps those that are not URLs, with the title
  as \<^verbatim>\<open>get_text(strip=True)\<close> reads it.
\<close>

fun all_links :: "outline \<Rightarrow> (string \<times> string) list" where
  "all_links (Link t h cs) = (t, h) # concat (map all_links cs)"
| "all_links (Container l cs) = concat (map all_links cs)"

definition dfs_links :: "outline list \<Rightarrow> (string \<times> string) list" where
  "dfs_links ns = map (\<lambda>l. (strip (fst l), snd l))
                    (filter (\<lambda>l. \<not> is_url (snd l)) (concat (map all_links ns)))"

definition a_tag :: "string \<times> string \<Rightarrow> node" where
  "a_tag l = Tag ''a'' [(''href'', snd l)] [Text (fst l)]"

section \<open>Normalizing a heading-based table of contents\<close>

text \<open>
  \<open>after_sep sep s\<close> is the text after the first occurrence of \<open>sep\<close> in \<open>s\<close>, that is
  \<^verbatim>\<open>s.split(sep, 1)[1]\<close>; it is \<open>None\<close> exactly when \<^verbatim>\<open>sep in s\<close> is false.
\<close>

fun after_sep :: "string \<Rightarrow> string \<Rightarrow> string option" where
  "after_sep sep [] = (if sep = [] then Some [] else None)"
| "after_sep sep (x # xs) =
     (if startswith (x # xs) sep then Some (drop (length sep) (x # xs)) else after_sep sep xs)"

text \<open>
  \<^verbatim>\<open>re.match(r'^[\d.]+\s+(.+)$', heading_text)\<close>: a run of digits and dots, then
  whitespace, then the rest, which becomes the heading. \<^verbatim>\<open>heading_text\<close> is a stripped part
  of one line, so it holds no line break and does not end in whitespace.
\<close>

definition clean_heading :: "string \<Rightarrow> string" where
  "clean_heading heading_text =
     (let numbering = takeWhile (\<lambda>c. is_digit c \<or> c = CHR ''.'') heading_text;
          rest = dropWhile (\<lambda>c. is_digit c \<or> c = CHR ''.'') heading_text;
          title = dropWhile is_space rest
      in if numbering \<noteq> [] \<and> takeWhile is_space rest \<noteq> [] \<and> title \<noteq> [] then title
         else heading_text)"

text \<open>
  The variables of \<^verbatim>\<open>convert_headings_to_lists\<close>: the lines written so far, the stack of
  open heading levels (top last) and the dictionary of item counters by indent level.
\<close>

record toc_state =
  output_lines :: "string list"
  heading_stack :: "nat list"
  item_counters :: "nat \<rightharpoonup> nat"

definition get_counter :: "(nat \<rightharpoonup> nat) \<Rightarrow> nat \<Rightarrow> nat" where
  "get_counter m k = (case m k of None \<Rightarrow> 0 | Some c \<Rightarrow> c)"

definition indent_of :: "nat \<Rightarrow> string" where
  "indent_of n = concat (replicate n ''    '')"

text \<open>
  One heading line (lines 536 to 585): its level is the number of leading \<^verbatim>\<open>#\<close>; a level
  of 1 is skipped; the counters of the indent levels from \<^verbatim>\<open>indent_level + 1\<close> up to 9 are
  deleted and the counter of this indent level is incremented.
\<close>

definition heading_line :: "toc_state \<Rightarrow> string \<Rightarrow> toc_state" where
  "heading_line st stripped =
     (let level = length (takeWhile (\<lambda>c. c = CHR ''#'') stripped);
          heading_text = strip (dropWhile (\<lambda>c. c = CHR ''#'') stripped)
      in if level = 1 then st
         else
           let indent_level = level - 2;
               stack = rev (dropWhile (\<lambda>l. l \<ge> level) (rev (heading_stack st))) @ [level];
               cleared = (\<lambda>k. if indent_level + 1 \<le> k \<and> k < 10 then None
                                else item_counters st k);
               counter = get_counter cleared indent_level + 1;
               counters = cleared(indent_level \<mapsto> counter)
           in \<lparr>output_lines = output_lines st @
                  [if indent_level = 0
                   then str_of_nat counter @ ''. '' @ clean_heading heading_text
                   else indent_of indent_level @ str_of_nat counter @ ''. ''
                          @ clean_heading heading_text],
                heading_stack = stack,
                item_counters = counters\<rparr>)"

text \<open>A line of content that is a numbered or bullet item (lines 587 to 617).\<close>

definition list_item :: "toc_state \<Rightarrow> string \<Rightarrow> toc_state" where
  "list_item st content =
     (let indent_level = length (heading_stack st);
          counter = get_counter (item_counters st) indent_level + 1
      in st\<lparr>output_lines := output_lines st @ [indent_of indent_level @ str_of_nat counter @ ''. '' @ content],
            item_counters := (item_counters st)(indent_level \<mapsto> counter)\<rparr>)"

definition content_line :: "toc_state \<Rightarrow> string \<Rightarrow> toc_state" where
  "content_line st stripped =
     (if stripped \<noteq> [] \<and> isdigit (hd stripped) \<and> after_sep ''. '' (take 5 stripped) \<noteq> None
      then list_item st (case after_sep ''. '' stripped of Some c \<Rightarrow> c | None \<Rightarrow> stripped)
      else if startswith stripped ''- '' then list_item st (strip (drop 2 stripped))
      else st)"

definition convert_line :: "toc_state \<Rightarrow> string \<Rightarrow> toc_state" where
  "convert_line st line =
     (if startswith (strip line) ''#'' then heading_line st (strip line)
      else if strip line \<noteq> [] then content_line st (strip line)
      else st)"

definition convert_headings_to_lists :: "string \<Rightarrow> string" where
  "convert_headings_to_lists md_text =
     join nl (output_lines (foldl convert_line
        \<lparr>output_lines = [], heading_stack = [], item_counters = Map.empty\<rparr>
        (split_on (CHR 0x0A) md_text)))"


text \<open>
  The numbering that the specification describes. \<open>sibling_number prev d\<close> is the number of
  the next entry at depth \<open>d\<close> after the entries whose depths are \<open>prev\<close> (latest first):
  one more than the entries at depth \<open>d\<close> since the last shallower entry. \<open>numbered_entries\<close>
  writes every heading of level 2 or more at depth level - 2 with that number.
\<close>

fun sibling_number :: "nat list \<Rightarrow> nat \<Rightarrow> nat" where
  "sibling_number [] d = 1"
| "sibling_number (p # ps) d =
     (if p < d then 1 else if p = d then Suc (sibling_number ps d) else sibling_number ps d)"

definition heading_level :: "string \<Rightarrow> nat" where
  "heading_level line = length (takeWhile (\<lambda>c. c = CHR ''#'') (strip line))"

definition heading_title :: "string \<Rightarrow> string" where
  "heading_title line = clean_heading (strip (dropWhile (\<lambda>c. c = CHR ''#'') (strip line)))"

fun numbered_entries :: "nat list \<Rightarrow> string list \<Rightarrow> string list" where
  "numbered_entries prev [] = []"
| "numbered_entries prev (line # lines) =
     (if heading_level line < 2 then numbered_entries prev lines
      else (indent_of (heading_level line - 2)
              @ str_of_nat (sibling_number prev (heading_level line - 2)) @ ''. ''
              @ heading_title line)
           # numbered_entries ((heading_level line - 2) # prev) lines)"

text \<open>An outline of headings only: every line is blank or a heading.\<close>

definition heading_only :: "string list \<Rightarrow> bool" where
  "heading_only lines = list_all (\<lambda>l. strip l = [] \<or> startswith (strip l) ''#'') lines"

definition counters_agree :: "nat list \<Rightarrow> (nat \<rightharpoonup> nat) \<Rightarrow> bool" where
  "counters_agree prev m = (\<forall>d < 10. get_counter m d + 1 = sibling_number prev d)"

text \<open>Two outlines: one with headings of twelve \<^verbatim>\<open>#\<close>, one of ordinary depth.\<close>

definition deep_outline :: string where
  "deep_outline = ''## A'' @ nl @ ''############ X'' @ nl @ ''## B'' @ nl @ ''############ Y''"

definition sample_outline :: string where
  "sample_outline = ''# Guide'' @ nl @ ''## Start'' @ nl @ nl @ ''### 1.1 Install'' @ nl
      @ ''### Run'' @ nl @ ''## Layers'' @ nl @ ''### Blend''"

section \<open>Translating a document\<close>

text \<open>
  What can stop \<^verbatim>\<open>md_to_dita_topic\<close>: \<^verbatim>\<open>open\<close> or \<^verbatim>\<open>read\<close> raises on a source that
  exists and cannot be read, and \<^verbatim>\<open>int(rowspan)\<close> raises on a row span that is not a number.
\<close>

datatype error = OSError | ValueError

text \<open>\<^verbatim>\<open>if x:\<close> on an optional string: present and not empty.\<close>

definition truthy :: "string option \<Rightarrow> bool" where
  "truthy v = (case v of None \<Rightarrow> False | Some s \<Rightarrow> s \<noteq> [])"

text \<open>\<^verbatim>\<open>tag[k] = v\<close> on the dictionary of attributes.\<close>

fun set_attr :: "string \<Rightarrow> string \<Rightarrow> (string \<times> string) list \<Rightarrow> (string \<times> string) list" where
  "set_attr k v [] = [(k, v)]"
| "set_attr k v (p # ps) = (if fst p = k then (k, v) # ps else p # set_attr k v ps)"

text \<open>\<^verbatim>\<open>sub in s\<close>, and \<^verbatim>\<open>s.split(c)[0]\<close> for a one-character separator.\<close>

definition contains :: "string \<Rightarrow> string \<Rightarrow> bool" where
  "contains sub s = (after_sep sub s \<noteq> None)"

definition before_char :: "char \<Rightarrow> string \<Rightarrow> string" where
  "before_char c s = takeWhile (\<lambda>x. x \<noteq> c) s"

text \<open>The decimal numeral of an integer, and \<^verbatim>\<open>int(s)\<close> on a string.\<close>

definition str_of_int :: "int \<Rightarrow> string" where
  "str_of_int i = (if i < 0 then ''-'' @ str_of_nat (nat (- i)) else str_of_nat (nat i))"

definition digit_value :: "char \<Rightarrow> nat" where
  "digit_value c = of_char c - 48"

definition nat_of_digits :: "string \<Rightarrow> nat" where
  "nat_of_digits ds = foldl (\<lambda>a c. 10 * a + digit_value c) 0 ds"

fun grouped_digits :: "string \<Rightarrow> bool" where
  "grouped_digits [] = False"
| "grouped_digits [c] = is_digit c"
| "grouped_digits (c # d # cs) =
     (is_digit c \<and> (if d = CHR ''_'' then grouped_digits cs else grouped_digits (d # cs)))"

definition py_int :: "string \<Rightarrow> int option" where
  "py_int s =
     (let t = strip s;
          negative = startswith t ''-'';
          body = (if startswith t ''-'' \<or> startswith t ''+'' then drop 1 t else t)
      in if grouped_digits body
         then Some ((if negative then - 1 else 1)
                    * int (nat_of_digits (filter (\<lambda>c. c \<noteq> CHR ''_'') body)))
         else None)"

subsection \<open>Inline content\<close>

definition MD_DIR :: string where
  "MD_DIR = ''md''"

definition convert_link :: "node \<Rightarrow> string" where
  "convert_link child =
     (if truthy (get_attr child ''data-dita-href'') then
        ''<xref href='' @ dq @ get_attr_default child ''data-dita-href'' @ dq
          @ '' format='' @ dq @ ''dita'' @ dq @ ''>''
          @ escape_xml (get_text_strip child) @ ''</xref>''
      else if is_url (get_attr_default child ''href'') then
        ''<xref href='' @ dq @ escape_xml (get_attr_default child ''href'') @ dq
          @ '' format='' @ dq @ ''html'' @ dq @ '' scope='' @ dq @ ''external'' @ dq @ ''>''
          @ escape_xml (get_text_strip child) @ ''</xref>''
      else escape_xml (get_text_strip child))"

definition convert_image :: "node \<Rightarrow> node \<Rightarrow> string" where
  "convert_image element child =
     (let img_src = get_attr_default child ''src'';
          img_alt = get_attr_default child ''alt''
      in if img_src \<noteq> [] then
           (if is_inline_image (Some element)
            then ''<image href='' @ dq @ escape_xml img_src @ dq
                   @ '' placement='' @ dq @ ''inline'' @ dq @ ''>''
            else ''<image href='' @ dq @ escape_xml img_src @ dq
                   @ '' placement='' @ dq @ ''break'' @ dq
                   @ '' align='' @ dq @ ''left'' @ dq @ ''>'')
           @ (if img_alt \<noteq> [] then ''<alt>'' @ escape_xml img_alt @ ''</alt>'' else [])
           @ ''</image>''
         else [])"

text \<open>One iteration of the loop of \<^verbatim>\<open>convert_element_content(element)\<close>.\<close>

definition convert_child :: "node \<Rightarrow> node \<Rightarrow> string" where
  "convert_child element child =
     (case tag_name child of
        None \<Rightarrow> escape_xml (get_text child)
      | Some name \<Rightarrow>
          if name = ''a'' then convert_link child
          else if name = ''code'' then ''<codeph>'' @ escape_xml (get_text child) @ ''</codeph>''
          else if name = ''strong'' \<or> name = ''b'' then
            ''<b>'' @ escape_xml (get_text child) @ ''</b>''
          else if name = ''em'' \<or> name = ''i'' then
            ''<i>'' @ escape_xml (get_text child) @ ''</i>''
          else if name = ''img'' then convert_image element child
          else escape_xml (get_text child))"

definition convert_element_content :: "node \<Rightarrow> string" where
  "convert_element_content element = concat (map (convert_child element) (children element))"

subsection \<open>Code blocks and list items\<close>

text \<open>
  The classes of a tag are the whitespace-separated words of its \<^verbatim>\<open>class\<close> attribute;
  \<open>remove_sub\<close> is \<^verbatim>\<open>s.replace(pat, "")\<close>.
\<close>

fun words_of :: "string \<Rightarrow> string list" where
  "words_of [] = []"
| "words_of (c # cs) =
     (if is_space c then words_of cs
      else (case words_of cs of
              [] \<Rightarrow> [[c]]
            | w # ws \<Rightarrow> if cs \<noteq> [] \<and> is_space (hd cs) then [c] # w # ws else (c # w) # ws))"

function remove_sub :: "string \<Rightarrow> string \<Rightarrow> string" where
  "remove_sub pat [] = []"
| "remove_sub pat (x # xs) =
     (if pat \<noteq> [] \<and> startswith (x # xs) pat then remove_sub pat (drop (length pat) (x # xs))
      else x # remove_sub pat xs)"
  by pat_completeness auto
termination
  by (relation "measure (\<lambda>(p, s). length s)") auto

definition code_language :: "node \<Rightarrow> string" where
  "code_language code_elem =
     (case List.find (\<lambda>cls. startswith cls ''language-'')
             (words_of (get_attr_default code_elem ''class'')) of
        Some cls \<Rightarrow> remove_sub ''language-'' cls
      | None \<Rightarrow> [])"

definition convert_pre :: "node \<Rightarrow> string" where
  "convert_pre element =
     (case find_first (named [''code'']) element of
        Some code_elem \<Rightarrow>
          if code_language code_elem \<noteq> [] then
            ''<codeblock outputclass='' @ dq @ ''language-'' @ code_language code_elem @ dq @ ''>''
              @ escape_xml (get_text code_elem) @ ''</codeblock>''
          else ''<codeblock>'' @ escape_xml (get_text code_elem) @ ''</codeblock>''
      | None \<Rightarrow> ''<codeblock>'' @ escape_xml (get_text element) @ ''</codeblock>'')"

text \<open>One iteration of the loop of \<^verbatim>\<open>convert_list_item_content(li_element)\<close>.\<close>

definition convert_li_child :: "node \<Rightarrow> string list" where
  "convert_li_child child =
     (case tag_name child of
        None \<Rightarrow> (if strip (get_text child) \<noteq> [] then [escape_xml (strip (get_text child))] else [])
      | Some name \<Rightarrow>
          if name = ''p'' then [''<p>'' @ convert_element_content child @ ''</p>'']
          else if name = ''pre'' then [convert_pre child]
          else if name = ''ul'' \<or> name = ''ol'' then []
          else if name = ''code'' then [''<codeph>'' @ escape_xml (get_text child) @ ''</codeph>'']
          else if name = ''strong'' \<or> name = ''b'' then
            [''<b>'' @ escape_xml (get_text child) @ ''</b>'']
          else if name = ''em'' \<or> name = ''i'' then
            [''<i>'' @ escape_xml (get_text child) @ ''</i>'']
          else if name = ''a'' then [convert_link child]
          else [])"

definition convert_list_item_content :: "node \<Rightarrow> string list" where
  "convert_list_item_content li_element = concat (map convert_li_child (children li_element))"

subsection \<open>Tables\<close>

text \<open>
  \<open>collect\<close> runs a loop whose body may raise: the first error stops it.
\<close>

fun collect :: "('a \<Rightarrow> error + 'b list) \<Rightarrow> 'a list \<Rightarrow> error + 'b list" where
  "collect f [] = Inr []"
| "collect f (x # xs) =
     (case f x of
        Inl e \<Rightarrow> Inl e
      | Inr ys \<Rightarrow> (case collect f xs of Inl e \<Rightarrow> Inl e | Inr zs \<Rightarrow> Inr (ys @ zs)))"

text \<open>A table cell: \<^verbatim>\<open>th\<close> or \<^verbatim>\<open>td\<close> (the source lists the two names in either order).\<close>

definition is_cell :: "node \<Rightarrow> bool" where
  "is_cell n = named [''th'', ''td''] n"

definition num_cols :: "node \<Rightarrow> nat" where
  "num_cols table_element =
     (case find_first (named [''thead'']) table_element of
        Some thead \<Rightarrow>
          (case find_first (named [''tr'']) thead of
             Some first_row \<Rightarrow> length (find_all is_cell first_row)
           | None \<Rightarrow> 1)
      | None \<Rightarrow>
          (case find_first (named [''tbody'']) table_element of
             Some tbody \<Rightarrow>
               (case find_first (named [''tr'']) tbody of
                  Some first_row \<Rightarrow> length (find_all is_cell first_row)
                | None \<Rightarrow> 1)
           | None \<Rightarrow> 1))"

definition colspec :: "nat \<Rightarrow> string" where
  "colspec i = ''        <colspec colname='' @ dq @ ''c'' @ str_of_nat (i + 1) @ dq
                 @ '' colnum='' @ dq @ str_of_nat (i + 1) @ dq @ ''/>''"

definition convert_cell :: "node \<Rightarrow> error + string list" where
  "convert_cell cell =
     (let cell_content = convert_element_content cell;
          colspan = get_attr cell ''colspan'';
          rowspan = get_attr cell ''rowspan'';
          span_attrs = (if truthy colspan
                        then [''namest='' @ dq @ ''c1'' @ dq @ '' nameend='' @ dq @ ''c''
                                @ get_attr_default cell ''colspan'' @ dq]
                        else [])
      in case (if truthy rowspan
               then (case py_int (get_attr_default cell ''rowspan'') of
                       None \<Rightarrow> Inl ValueError
                     | Some r \<Rightarrow> Inr [''morerows='' @ dq @ str_of_int (r - 1) @ dq])
               else Inr []) of
           Inl e \<Rightarrow> Inl e
         | Inr row_attrs \<Rightarrow>
             let entry_attrs = span_attrs @ row_attrs
             in if entry_attrs \<noteq> []
                then Inr [''            <entry '' @ join '' '' entry_attrs @ ''>''
                            @ cell_content @ ''</entry>'']
                else Inr [''            <entry>'' @ cell_content @ ''</entry>''])"

definition convert_row :: "node \<Rightarrow> error + string list" where
  "convert_row tr =
     (case collect convert_cell (find_all is_cell tr) of
        Inl e \<Rightarrow> Inl e
      | Inr entries \<Rightarrow> Inr ([''          <row>''] @ entries @ [''          </row>'']))"

definition convert_section :: "string \<Rightarrow> node option \<Rightarrow> error + string list" where
  "convert_section name part =
     (case part of
        None \<Rightarrow> Inr []
      | Some rows \<Rightarrow>
          (case collect convert_row (find_all (named [''tr'']) rows) of
             Inl e \<Rightarrow> Inl e
           | Inr lines \<Rightarrow>
               Inr ([''        <'' @ name @ ''>''] @ lines @ [''        </'' @ name @ ''>''])))"

definition table_lines :: "node \<Rightarrow> error + string list" where
  "table_lines table_element =
     (case convert_section ''thead'' (find_first (named [''thead'']) table_element) of
        Inl e \<Rightarrow> Inl e
      | Inr head \<Rightarrow>
          (case convert_section ''tbody'' (find_first (named [''tbody'']) table_element) of
             Inl e \<Rightarrow> Inl e
           | Inr body \<Rightarrow>
               Inr ([''    <table>'',
                     ''      <tgroup cols='' @ dq @ str_of_nat (num_cols table_element) @ dq @ ''>'']
                    @ map colspec [0..<num_cols table_element]
                    @ head @ body
                    @ [''      </tgroup>'', ''    </table>''])))"

definition convert_table_to_dita :: "node \<Rightarrow> error + string" where
  "convert_table_to_dita table_element =
     (case table_lines table_element of Inl e \<Rightarrow> Inl e | Inr lines \<Rightarrow> Inr (join nl lines))"


subsection \<open>The collaborators\<close>

text \<open>
  What \<^verbatim>\<open>md_to_dita_topic\<close> takes from outside the generator: the file system (a path
  is missing, or exists and cannot be read, or holds a text), the Markdown library and
  the HTML parser (from a text to the top-level nodes of the soup), \<^verbatim>\<open>urlparse\<close> (from a
  URL to its network location and path) and the relocation of an image path
  (\<^verbatim>\<open>Path.resolve\<close> and \<^verbatim>\<open>os.path.relpath\<close>, \<open>None\<close> when they raise).
\<close>

datatype file_state = Missing | Unreadable | Content string

record collaborators =
  file_at :: "string \<Rightarrow> file_state"
  markdown_soup :: "string \<Rightarrow> node list"
  urlparse :: "string \<Rightarrow> string \<times> string"
  relative_to_dita :: "string \<Rightarrow> string \<Rightarrow> string option"

subsection \<open>Links\<close>

text \<open>
  Lines 338 to 388: the key under which the link \<^verbatim>\<open>href\<close> is looked up, or \<open>None\<close> when
  the loop moves on without a lookup.
\<close>

definition link_target :: "(string \<Rightarrow> string \<times> string) \<Rightarrow> string \<Rightarrow> string option" where
  "link_target parse href =
     (if startswith href ''#'' then None
      else
        (case (if is_url href
               then (if contains ''helpx.adobe.com'' (fst (parse href))
                        \<or> contains ''adobe.com'' (fst (parse href))
                     then Some (snd (parse href)) else None)
               else Some href) of
           None \<Rightarrow> None
         | Some path \<Rightarrow>
             let no_fragment = (if CHR ''#'' \<in> set path then before_char (CHR ''#'') path else path);
                 no_query = (if CHR ''?'' \<in> set no_fragment
                             then before_char (CHR ''?'') no_fragment else no_fragment);
                 base_path = (if endswith no_query ''.html''
                              then take (length no_query - 5) no_query else no_query)
             in if base_path = [] \<or> base_path = ''/'' then None
                else
                  let link_path = base_path @ ''.md'';
                      link_path = (if startswith link_path ''/'' then ''.'' @ link_path
                                   else if \<not> startswith link_path ''./'' then ''./'' @ link_path
                                   else link_path)
                  in Some (normalize_path (path_join MD_DIR link_path))))"

definition mark_link ::
  "(string \<Rightarrow> string \<times> string) \<Rightarrow> (string \<times> topic_info) list \<Rightarrow> node \<Rightarrow> node" where
  "mark_link parse ftt link =
     (case link_target parse (get_attr_default link ''href'') of
        None \<Rightarrow> link
      | Some normalized \<Rightarrow>
          (case map_of ftt normalized of
             Some target_topic \<Rightarrow>
               Tag ''a'' (set_attr ''data-dita-scope'' ''local''
                           (set_attr ''data-dita-href'' (ti_filename target_topic) (attrs link)))
                 (children link)
           | None \<Rightarrow> link))"

text \<open>The loop over \<^verbatim>\<open>soup.find_all("a", href=True)\<close>: every such tag, wherever it is.\<close>

fun process_links ::
  "(string \<Rightarrow> string \<times> string) \<Rightarrow> (string \<times> topic_info) list \<Rightarrow> node \<Rightarrow> node" where
  "process_links parse ftt (Text s) = Text s"
| "process_links parse ftt (Tag n as cs) =
     (if is_a_href (Tag n as cs)
      then mark_link parse ftt (Tag n as (map (process_links parse ftt) cs))
      else Tag n as (map (process_links parse ftt) cs))"

subsection \<open>Images\<close>

definition resolve_image_path ::
  "(string \<Rightarrow> string \<Rightarrow> string option) \<Rightarrow> string \<Rightarrow> string \<Rightarrow> string" where
  "resolve_image_path relocate img_src md_file_path =
     (if startswith img_src ''data:'' \<or> is_url img_src then img_src
      else (case relocate img_src md_file_path of
              Some relative \<Rightarrow> relative
            | None \<Rightarrow> img_src))"

text \<open>
  The loop over \<^verbatim>\<open>soup.find_all("img")\<close>: an image is removed from the tree
  (\<^verbatim>\<open>decompose\<close>) or gets its new \<^verbatim>\<open>src\<close>. The result is the list of nodes that take the
  place of the node: none when it was removed.
\<close>

fun process_images ::
  "(string \<Rightarrow> string \<Rightarrow> string option) \<Rightarrow> string \<Rightarrow> node \<Rightarrow> node list" where
  "process_images relocate md_path (Text s) = [Text s]"
| "process_images relocate md_path (Tag n as cs) =
     (if n = ''img'' \<and> get_attr_default (Tag n as cs) ''src'' \<noteq> [] then
        (if startswith (get_attr_default (Tag n as cs) ''src'') ''data:'' then []
         else if is_url (resolve_image_path relocate (get_attr_default (Tag n as cs) ''src'') md_path)
         then []
         else [Tag n (set_attr ''src''
                       (resolve_image_path relocate (get_attr_default (Tag n as cs) ''src'') md_path)
                       as)
                 (concat (map (process_images relocate md_path) cs))])
      else [Tag n as (concat (map (process_images relocate md_path) cs))])"

subsection \<open>Blocks\<close>

definition convert_list :: "string \<Rightarrow> node \<Rightarrow> string list" where
  "convert_list name element =
     [''    <'' @ name @ ''>'']
     @ concat (map (\<lambda>li. [''      <li>'']
                           @ map (\<lambda>part. ''        '' @ part) (convert_list_item_content li)
                           @ [''      </li>''])
                (find_all_direct (named [''li'']) element))
     @ [''    </'' @ name @ ''>'']"

text \<open>One iteration of the loop over \<^verbatim>\<open>soup.children\<close> (lines 431 to 496).\<close>

definition convert_block :: "node \<Rightarrow> error + string list" where
  "convert_block element =
     (case tag_name element of
        None \<Rightarrow> Inr []
      | Some name \<Rightarrow>
          if name = ''h1'' then Inr []
          else if name \<in> set [''h2'', ''h3'', ''h4'', ''h5'', ''h6''] then
            Inr [''    <section><title>'' @ escape_xml (get_text_strip element)
                   @ ''</title></section>'']
          else if name = ''p'' then Inr [''    <p>'' @ convert_element_content element @ ''</p>'']
          else if name = ''ul'' then Inr (convert_list ''ul'' element)
          else if name = ''ol'' then Inr (convert_list ''ol'' element)
          else if name = ''pre'' then Inr [''    '' @ convert_pre element]
          else if name = ''table'' then
            (case convert_table_to_dita element of Inl e \<Rightarrow> Inl e | Inr table \<Rightarrow> Inr [table])
          else if name = ''img'' then
            (if get_attr_default element ''src'' \<noteq> [] then
               Inr ([''    <image href='' @ dq @ escape_xml (get_attr_default element ''src'') @ dq
                       @ '' placement='' @ dq @ ''break'' @ dq
                       @ '' align='' @ dq @ ''left'' @ dq @ ''>'']
                    @ (if get_attr_default element ''alt'' \<noteq> []
                       then [''      <alt>'' @ escape_xml (get_attr_default element ''alt'') @ ''</alt>'']
                       else [])
                    @ [''    </image>''])
             else Inr [])
          else Inr [])"

definition topic_head :: "string \<Rightarrow> string \<Rightarrow> string list" where
  "topic_head topic_id title =
     [''<?xml version='' @ dq @ ''1.0'' @ dq @ '' encoding='' @ dq @ ''UTF-8'' @ dq @ ''?>'',
      ''<!DOCTYPE topic PUBLIC '' @ dq @ ''-//OASIS//DTD DITA Topic//EN'' @ dq @ '' '' @ dq
        @ ''topic.dtd'' @ dq @ ''>'',
      ''<topic id='' @ dq @ topic_id @ dq @ ''>'',
      ''  <title>'' @ title @ ''</title>'',
      ''  <body>'']"

text \<open>\<^verbatim>\<open>md_to_dita_topic(md_path, topic_id, title, file_to_topic)\<close>.\<close>

definition md_to_dita_topic ::
  "collaborators \<Rightarrow> string \<Rightarrow> string \<Rightarrow> string \<Rightarrow> (string \<times> topic_info) list \<Rightarrow> error + string" where
  "md_to_dita_topic env md_path topic_id title ftt =
     (case file_at env md_path of
        Missing \<Rightarrow>
          Inr (join nl (topic_head topic_id title
                 @ [''    <p><i>Missing file: '' @ md_path @ ''</i></p>'',
                    ''  </body>'', ''</topic>'', []]))
      | Unreadable \<Rightarrow> Inl OSError
      | Content md_content \<Rightarrow>
          (let parsed = markdown_soup env md_content;
               linked = (if ftt \<noteq> [] then map (process_links (urlparse env) ftt) parsed
                         else parsed);
               soup_nodes = concat (map (process_images (relative_to_dita env) md_path) linked)
           in case collect convert_block soup_nodes of
                Inl e \<Rightarrow> Inl e
              | Inr body \<Rightarrow>
                  Inr (join nl (topic_head topic_id title @ body @ [''  </body>'', ''</topic>'']))))"

section \<open>The whole run\<close>

text \<open>Lines 684 to 698: the title of the map.\<close>

definition doc_title_of :: "string option \<Rightarrow> node list \<Rightarrow> string" where
  "doc_title_of title toc =
     (if truthy title then (case title of Some t \<Rightarrow> t | None \<Rightarrow> [])
      else
        let from_link =
              (case find_first (named [''ol'', ''ul'']) (soup toc) of
                 Some top_ol \<Rightarrow>
                   (case find_first (named [''li'']) top_ol of
                      Some first_li \<Rightarrow>
                        (case find_first (named [''a'']) first_li of
                           Some first_link \<Rightarrow> get_text_strip first_link
                         | None \<Rightarrow> [])
                    | None \<Rightarrow> [])
               | None \<Rightarrow> [])
        in if from_link \<noteq> [] then from_link else ''Documentation'')"

text \<open>
  The second pass (lines 756 to 765): every tuple of \<^verbatim>\<open>files_to_process\<close> is translated
  and written under its filename; the result is the list of the files written, in order.
  An error of a translation ends the run.
\<close>

fun generate_topics ::
  "collaborators \<Rightarrow> (string \<times> topic_info) list \<Rightarrow> (string \<times> string \<times> string \<times> string) list
   \<Rightarrow> error + (string \<times> string) list" where
  "generate_topics env ftt [] = Inr []"
| "generate_topics env ftt ((href, topic_id, title, topic_filename) # rest) =
     (case md_to_dita_topic env href topic_id title ftt of
        Inl e \<Rightarrow> Inl e
      | Inr dita_content \<Rightarrow>
          (case generate_topics env ftt rest of
             Inl e \<Rightarrow> Inl e
           | Inr written \<Rightarrow> Inr ((topic_filename, dita_content) # written)))"

text \<open>The third pass (lines 768 to 826): the parts of the map.\<close>

definition ditamap_parts :: "node list \<Rightarrow> string \<Rightarrow> string \<Rightarrow> (string \<times> topic_info) list \<Rightarrow> string list" where
  "ditamap_parts toc base_path doc_title ftt =
     [''<?xml version='' @ dq @ ''1.0'' @ dq @ '' encoding='' @ dq @ ''UTF-8'' @ dq @ ''?>'',
      ''<!DOCTYPE map PUBLIC '' @ dq @ ''-//OASIS//DTD DITA Map//EN'' @ dq @ '' '' @ dq
        @ ''map.dtd'' @ dq @ ''>'',
      ''<map>'',
      ''  <title>'' @ escape_xml doc_title @ ''</title>'']
     @ (case find_first (named [''ol'', ''ul'']) (soup toc) of
          Some top_ol \<Rightarrow> build_map_structure ftt base_path top_ol ''  ''
        | None \<Rightarrow> [])
     @ [''</map>'']"

text \<open>
  \<^verbatim>\<open>build_dita_map(toc_soup, dita_dir, base_path, title)\<close>: the files written into
  \<^verbatim>\<open>dita_dir\<close>, the text of the map and the title.
\<close>

definition build_dita_map ::
  "collaborators \<Rightarrow> node list \<Rightarrow> string \<Rightarrow> string option
   \<Rightarrow> error + ((string \<times> string) list \<times> string \<times> string)" where
  "build_dita_map env toc base_path title =
     (let doc_title = doc_title_of title toc;
          st = build_index base_path toc
      in case generate_topics env (file_to_topic st) (files_to_process st) of
           Inl e \<Rightarrow> Inl e
         | Inr written \<Rightarrow>
             Inr (written, join nl (ditamap_parts toc base_path doc_title (file_to_topic st)),
                  doc_title))"

text \<open>
  The files that a map refers to, as a reader of the map finds them: a part that opens,
  after its indentation, with \<^verbatim>\<open><topicref href="\<close> refers to the file named up to the
  next double quote.
\<close>

definition topicref_href :: "string \<Rightarrow> string option" where
  "topicref_href part =
     (let body = dropWhile (\<lambda>c. c = CHR '' '') part
      in if startswith body (''<topicref href='' @ dq)
         then Some (takeWhile (\<lambda>c. c \<noteq> CHR 0x22) (drop (length (''<topicref href='' @ dq)) body))
         else None)"

definition referenced_files :: "string list \<Rightarrow> string list" where
  "referenced_files parts = List.map_filter topicref_href parts"

text \<open>The topic written for a source that is missing (lines 312 to 320).\<close>

definition missing_notice :: "string \<Rightarrow> string \<Rightarrow> string \<Rightarrow> string" where
  "missing_notice md_path topic_id title =
     join nl (topic_head topic_id title
       @ [''    <p><i>Missing file: '' @ md_path @ ''</i></p>'', ''  </body>'', ''</topic>'', []])"

text \<open>
  \<^verbatim>\<open>urlparse\<close> on a URL of the form \<^verbatim>\<open>scheme://netloc/path?query#fragment\<close>: the network
  location and the path.
\<close>

definition url_parts :: "string \<Rightarrow> string \<times> string" where
  "url_parts url =
     (let rest = (case after_sep ''//'' url of Some r \<Rightarrow> r | None \<Rightarrow> []);
          netloc = takeWhile (\<lambda>c. c \<notin> set ''/?#'') rest;
          path = takeWhile (\<lambda>c. c \<notin> set ''?#'') (dropWhile (\<lambda>c. c \<notin> set ''/?#'') rest)
      in (netloc, path))"












section \<open>Runs, files and references\<close>

text \<open>
  A tuple of \<^verbatim>\<open>files_to_process\<close> read as the entry of \<^verbatim>\<open>file_to_topic\<close> that was made
  with it, and the filename under which its topic is written.
\<close>

definition entry_of :: "string \<times> string \<times> string \<times> string \<Rightarrow> string \<times> topic_info" where
  "entry_of e = (case e of (href, topic_id, title, topic_filename) \<Rightarrow>
     (normalize_path href, \<lparr>ti_id = topic_id, ti_filename = topic_filename, ti_title = title\<rparr>))"

definition written_name :: "string \<times> string \<times> string \<times> string \<Rightarrow> string" where
  "written_name e = (case e of (href, topic_id, title, topic_filename) \<Rightarrow> topic_filename)"

text \<open>An indentation: spaces only.\<close>

definition spaces :: "string \<Rightarrow> bool" where
  "spaces indent = (\<forall>c \<in> set indent. c = CHR '' '')"

text \<open>Every file that the parts refer to is in the set.\<close>

definition refs_in :: "string set \<Rightarrow> string list \<Rightarrow> bool" where
  "refs_in R parts = (set (referenced_files parts) \<subseteq> R)"

text \<open>
  The files that the second pass has written when it ends: those before the first
  translation that raises.
\<close>

fun written_files ::
  "collaborators \<Rightarrow> (string \<times> topic_info) list \<Rightarrow> (string \<times> string \<times> string \<times> string) list
   \<Rightarrow> (string \<times> string) list" where
  "written_files env ftt [] = []"
| "written_files env ftt ((href, topic_id, title, topic_filename) # rest) =
     (case md_to_dita_topic env href topic_id title ftt of
        Inl e \<Rightarrow> []
      | Inr dita_content \<Rightarrow> (topic_filename, dita_content) # written_files env ftt rest)"


definition directory_env :: collaborators where
  "directory_env =
     \<lparr>file_at = (\<lambda>p. if p = ''md/./guide/'' then Unreadable else Missing),
      markdown_soup = (\<lambda>text. []),
      urlparse = url_parts,
      relative_to_dita = (\<lambda>img_src md_path. None)\<rparr>"

definition late_outline :: "outline list" where
  "late_outline = [Link ''Intro'' ''guide/intro.html'' [], Link ''Guide'' ''guide/'' []]"


text \<open>A file system without any source, and an outline whose first item is a loose item.\<close>

definition missing_env :: collaborators where
  "missing_env =
     \<lparr>file_at = (\<lambda>p. Missing),
      markdown_soup = (\<lambda>text. []),
      urlparse = url_parts,
      relative_to_dita = (\<lambda>img_src md_path. None)\<rparr>"

definition loose_toc :: "node list" where
  "loose_toc =
     [Tag ''ol'' []
        [Tag ''li'' [] [Text nl, Tag ''p'' [] [Tag ''a'' [(''href'', ''a.html'')] [Text ''A'']], Text nl],
         Tag ''li'' [] [Tag ''a'' [(''href'', ''b.html'')] [Text ''B'']]]]"

section \<open>Links and paragraphs as the specification describes them\<close>
















section \<open>Facts about strings\<close>

lemma dropWhile_rev_dropWhile_Nil:
  "dropWhile P (rev (dropWhile P s)) = [] \<longleftrightarrow> dropWhile P s = []"
proof
  assume a: "dropWhile P (rev (dropWhile P s)) = []"
  show "dropWhile P s = []"
  proof (rule ccontr)
    assume ne: "dropWhile P s \<noteq> []"
    then have "\<not> P (hd (dropWhile P s))" by (rule hd_dropWhile)
    moreover have "hd (dropWhile P s) \<in> set (rev (dropWhile P s))" using ne by simp
    moreover from a have "\<forall>x \<in> set (rev (dropWhile P s)). P x"
      by (simp only: dropWhile_eq_Nil_conv)
    ultimately show False by blast
  qed
next
  assume b: "dropWhile P s = []"
  show "dropWhile P (rev (dropWhile P s)) = []" unfolding b by simp
qed

lemma strip_nonempty_iff: "strip s \<noteq> [] \<longleftrightarrow> (\<exists>c \<in> set s. \<not> is_space c)"
proof -
  have "strip s = [] \<longleftrightarrow> dropWhile is_space s = []"
    unfolding strip_def rev_is_Nil_conv by (rule dropWhile_rev_dropWhile_Nil)
  also have "\<dots> \<longleftrightarrow> (\<forall>c \<in> set s. is_space c)"
    by (rule dropWhile_eq_Nil_conv)
  finally show ?thesis by blast
qed

lemma foldl_text_step:
  "foldl text_step acc cs =
     acc @ concat (map get_text (filter (\<lambda>c. tag_name c \<noteq> Some ''img'') cs))"
  by (induction cs arbitrary: acc) (simp_all add: text_step_def)

section \<open>The index as a function of the traversal\<close>

lemma collect_items_foldl:
  "collect_items bp lis st = foldl (index_step bp) st (visited_links lis)"
  by (induction bp lis st rule: collect_items.induct)
     (auto simp: Let_def index_step_def split: option.splits)

lemma first_occurrences_snoc:
  "first_occurrences (xs @ [x]) =
     (if x \<in> set xs then first_occurrences xs else first_occurrences xs @ [x])"
  by (simp add: first_occurrences_def)

lemma set_first_occurrences [simp]: "set (first_occurrences xs) = set xs"
  by (simp add: first_occurrences_def)

lemma distinct_first_occurrences [simp]: "distinct (first_occurrences xs)"
  by (simp add: first_occurrences_def)

lemma first_title_snoc:
  "k \<in> fst ` set E \<Longrightarrow> first_title (E @ [e]) k = first_title E k"
  by (auto simp: first_title_def map_add_def map_of_eq_None_iff split: option.splits)

lemma first_title_snoc_new:
  "k \<notin> fst ` set E \<Longrightarrow> first_title (E @ [(k, t)]) k = t"
proof -
  assume "k \<notin> fst ` set E"
  then have "map_of E k = None" by (simp add: map_of_eq_None_iff)
  then show ?thesis by (simp add: first_title_def map_add_def)
qed

lemma index_of_encounters_snoc:
  "index_of_encounters (E @ [(k, t)]) =
     (if k \<in> fst ` set E then index_of_encounters E
      else index_of_encounters E @
             [(k, topic_record (Suc (length (index_of_encounters E))) t)])"
proof -
  have same: "map (\<lambda>(i, k'). (k', topic_record (Suc i) (first_title (E @ [(k, t)]) k')))
                 (enumerate 0 (first_occurrences (map fst E)))
            = index_of_encounters E"
    unfolding index_of_encounters_def
    by (rule map_cong [OF refl]) (auto simp: in_set_enumerate_eq first_title_snoc dest!: nth_mem)
  show ?thesis
  proof (cases "k \<in> fst ` set E")
    case True
    then show ?thesis
      using same by (simp add: index_of_encounters_def first_occurrences_snoc)
  next
    case False
    then have "index_of_encounters (E @ [(k, t)]) =
        map (\<lambda>(i, k'). (k', topic_record (Suc i) (first_title (E @ [(k, t)]) k')))
          (enumerate 0 (first_occurrences (map fst E) @ [k]))"
      by (simp add: index_of_encounters_def first_occurrences_snoc)
    also have "\<dots> = index_of_encounters E @
        [(k, topic_record (Suc (length (first_occurrences (map fst E)))) t)]"
      using False same by (simp add: enumerate_append_eq first_title_snoc_new)
    finally show ?thesis using False by (simp add: index_of_encounters_def)
  qed
qed

lemma keys_index_of_encounters [simp]:
  "map fst (index_of_encounters E) = first_occurrences (map fst E)"
  unfolding index_of_encounters_def
  by (simp add: map_idI comp_def case_prod_unfold) 

lemma index_step_closed:
  assumes "file_to_topic st = index_of_encounters E" "topic_counter st = length (file_to_topic st)"
  shows "file_to_topic (index_step bp st l) = index_of_encounters (E @ [link_key bp l])
       \<and> topic_counter (index_step bp st l) = length (file_to_topic (index_step bp st l))"
proof -
  have "map_of (file_to_topic st) k = None \<longleftrightarrow> k \<notin> fst ` set E" for k
    using assms(1) keys_index_of_encounters [of E]
    by (metis map_of_eq_None_iff set_first_occurrences set_map)
  then show ?thesis
    using assms
    by (auto simp: index_step_def register_link_def Let_def link_key_def
        index_of_encounters_snoc topic_record_def topic_name_def)
qed

lemma foldl_index_step_closed:
  "file_to_topic st = index_of_encounters E \<Longrightarrow> topic_counter st = length (file_to_topic st) \<Longrightarrow>
   file_to_topic (foldl (index_step bp) st ls) = index_of_encounters (E @ map (link_key bp) ls)
   \<and> topic_counter (foldl (index_step bp) st ls) = length (file_to_topic (foldl (index_step bp) st ls))"
proof (induction ls arbitrary: st E)
  case Nil
  then show ?case by simp
next
  case (Cons l ls)
  from index_step_closed [OF Cons.prems, of bp l]
  have "file_to_topic (foldl (index_step bp) (index_step bp st l) ls)
          = index_of_encounters ((E @ [link_key bp l]) @ map (link_key bp) ls)
      \<and> topic_counter (foldl (index_step bp) (index_step bp st l) ls)
          = length (file_to_topic (foldl (index_step bp) (index_step bp st l) ls))"
    by (intro Cons.IH) simp_all
  then show ?case by simp
qed

lemma build_index_closed:
  "file_to_topic (build_index bp toc) = index_of_encounters (encounters bp toc)
   \<and> topic_counter (build_index bp toc) = length (file_to_topic (build_index bp toc))"
proof -
  have init: "file_to_topic initial_state = index_of_encounters []"
    "topic_counter initial_state = length (file_to_topic initial_state)"
    by (simp_all add: initial_state_def index_of_encounters_def first_occurrences_def enumerate_eq_zip)
  show ?thesis
    using foldl_index_step_closed [OF init, of bp] init
    by (auto simp: build_index_def encounters_def collect_files_def collect_items_foldl
        split: option.splits)
qed


section \<open>The traversal of a canonical outline\<close>

lemma find_filter_hd:
  "List.find P xs = (case filter P xs of [] \<Rightarrow> None | x # _ \<Rightarrow> Some x)"
  by (induction xs) auto

lemma items_list_node [simp]:
  "find_all_direct (named [''li'']) (list_node (map li_of ns)) = map li_of ns"
proof -
  have "filter (named [''li'']) (concat (map (\<lambda>i. [i, Text nl]) (map li_of ns))) = map li_of ns"
  proof (induction ns)
    case Nil then show ?case by simp
  next
    case (Cons n ns)
    have "named [''li''] (li_of n)" by (cases n) (simp_all add: named_def)
    then show ?case using Cons by (simp add: named_def)
  qed
  then show ?thesis by (simp add: find_all_direct_def list_node_def named_def)
qed

lemma descendants_list_node:
  "descendants (list_node items) = Text nl # concat (map (\<lambda>i. i # descendants i @ [Text nl]) items)"
  by (induction items) (simp_all add: list_node_def)

lemma is_a_href_simps [simp]:
  "is_a_href (a_tag l)" "\<not> is_a_href (Text s)" "\<not> is_a_href (list_node xs)"
  "\<not> is_a_href (li_of n)"
  by (cases n; simp add: is_a_href_def named_def a_tag_def get_attr_def list_node_def)+

lemma descendants_a_tag [simp]: "descendants (a_tag l) = [Text (fst l)]"
  by (simp add: a_tag_def)

lemma dfs_links_Nil [simp]: "dfs_links [] = []"
  by (simp add: dfs_links_def)

lemma links_below_list:
  assumes "\<And>c. c \<in> set cs \<Longrightarrow> filter is_a_href (descendants (li_of c)) = map a_tag (all_links c)"
  shows "filter is_a_href (descendants (list_node (map li_of cs))) = map a_tag (concat (map all_links cs))"
  using assms by (induction cs) (simp_all add: descendants_list_node)

lemma links_below_li: "filter is_a_href (descendants (li_of n)) = map a_tag (all_links n)"
proof (induction n)
  case (Link t h cs)
  have a: "Tag ''a'' [(''href'', h)] [Text t] = a_tag (t, h)" by (simp add: a_tag_def)
  show ?case
    using links_below_list [of cs] Link.IH unfolding li_of.simps a by simp
next
  case (Container l cs)
  show ?case
    using links_below_list [of cs] Container.IH by simp
qed

lemma find_link_li:
  "find_first is_a_href (li_of n) = (case all_links n of [] \<Rightarrow> None | l # _ \<Rightarrow> Some (a_tag l))"
  by (simp add: find_first_def find_filter_hd links_below_li split: list.splits)

lemma nested_li:
  "find_direct (named [''ol'', ''ul'']) (li_of n) =
     (case n of Link t h cs \<Rightarrow> if cs = [] then None else Some (list_node (map li_of cs))
              | Container l cs \<Rightarrow> if cs = [] then None else Some (list_node (map li_of cs)))"
  by (cases n) (simp_all add: find_direct_def named_def list_node_def)

lemma register_link_step: "register_link bp t h st = index_step bp st (t, h)"
  by (simp add: index_step_def)

lemma index_step_idem: "index_step bp (index_step bp st l) l = index_step bp st l"
  by (simp add: index_step_def register_link_def Let_def)

lemma collect_items_Cons:
  "collect_items bp (li # lis) st = collect_items bp lis (collect_items bp [li] st)"
  by (simp add: Let_def)

lemma collect_items_append:
  "collect_items bp (xs @ ys) st = collect_items bp ys (collect_items bp xs st)"
proof (induction xs arbitrary: st)
  case Nil then show ?case by simp
next
  case (Cons x xs)
  show ?case
    using Cons [of "collect_items bp [x] st"] collect_items_Cons [of bp x "xs @ ys" st]
      collect_items_Cons [of bp x xs st] by simp
qed

lemma dfs_links_Cons: "dfs_links (n # ns) = dfs_links [n] @ dfs_links ns"
  by (simp add: dfs_links_def)

lemma collect_items_map:
  assumes "\<And>n st. n \<in> set ns \<Longrightarrow> collect_items bp [li_of n] st = foldl (index_step bp) st (dfs_links [n])"
  shows "collect_items bp (map li_of ns) st = foldl (index_step bp) st (dfs_links ns)"
  using assms
proof (induction ns arbitrary: st)
  case Nil then show ?case by (simp add: dfs_links_def)
next
  case (Cons n ns)
  have "collect_items bp (map li_of (n # ns)) st
      = collect_items bp (map li_of ns) (collect_items bp [li_of n] st)"
    using collect_items_Cons [of bp "li_of n" "map li_of ns" st] by simp
  also have "\<dots> = foldl (index_step bp) (foldl (index_step bp) st (dfs_links [n])) (dfs_links ns)"
    using Cons.IH Cons.prems by simp
  finally show ?case
    using dfs_links_Cons [of n ns] by simp
qed

lemma collect_items_li_of:
  "collect_items bp [li_of n] st = foldl (index_step bp) st (dfs_links [n])"
proof (induction n arbitrary: st)
  case (Link t h cs)
  have kids: "\<And>st. collect_items bp (map li_of cs) st = foldl (index_step bp) st (dfs_links cs)"
    using Link.IH by (intro collect_items_map) simp
  have title: "get_text_strip (a_tag (t, h)) = strip t"
    by (simp add: get_text_strip_def a_tag_def)
  have href: "get_attr_default (a_tag (t, h)) ''href'' = h"
    by (simp add: get_attr_default_def get_attr_def a_tag_def)
  have d: "dfs_links [Link t h cs] = (if is_url h then [] else [(strip t, h)]) @ dfs_links cs"
    by (simp add: dfs_links_def)
  show ?case
    unfolding d
    by (simp add: find_link_li nested_li title href kids register_link_step Let_def
        del: li_of.simps)
next
  case (Container l cs)
  have kids: "\<And>st. collect_items bp (map li_of cs) st = foldl (index_step bp) st (dfs_links cs)"
    using Container.IH by (intro collect_items_map) simp
  have d: "dfs_links [Container l cs] = dfs_links cs"
    by (simp add: dfs_links_def)
  show ?case
  proof (cases "concat (map all_links cs)")
    case Nil
    then have e: "dfs_links cs = []" by (simp add: dfs_links_def)
    have f: "find_first is_a_href (li_of (Container l cs)) = None"
      unfolding find_link_li all_links.simps Nil by simp
    show ?thesis
      unfolding d e collect_items.simps f
      using kids e by (simp add: nested_li Let_def del: li_of.simps)
  next
    case (Cons x xs)
    then have ne: "cs \<noteq> []" by auto
    obtain t h where x: "x = (t, h)" by (cases x)
    have title: "get_text_strip (a_tag (t, h)) = strip t"
      by (simp add: get_text_strip_def a_tag_def)
    have href: "get_attr_default (a_tag (t, h)) ''href'' = h"
      by (simp add: get_attr_default_def get_attr_def a_tag_def)
    show ?thesis
    proof (cases "is_url h")
      case True
      then show ?thesis
        using Cons x ne kids unfolding d
        by (simp add: find_link_li nested_li Let_def title href del: li_of.simps)
    next
      case False
      then have "dfs_links cs = (strip t, h) # dfs_links_tail"
        if "dfs_links_tail = map (\<lambda>l. (strip (fst l), snd l)) (filter (\<lambda>l. \<not> is_url (snd l)) xs)"
        for dfs_links_tail
        using Cons x that by (simp add: dfs_links_def)
      then obtain r where r: "dfs_links cs = (strip t, h) # r" by blast
      have "collect_items bp [li_of (Container l cs)] st
          = foldl (index_step bp) (index_step bp st (strip t, h)) (dfs_links cs)"
        using Cons x ne kids False
        by (simp add: find_link_li nested_li Let_def title href register_link_step del: li_of.simps)
      also have "\<dots> = foldl (index_step bp) st (dfs_links cs)"
        unfolding r by (simp add: index_step_idem)
      finally show ?thesis unfolding d .
    qed
  qed
qed

lemma top_list_of_outline:
  "find_first (named [''ol'', ''ul'']) (soup [ol_of ns]) = Some (ol_of ns)"
  by (simp add: find_first_def soup_def ol_of_def list_node_def named_def)

lemma build_index_outline:
  "build_index bp [ol_of ns] = foldl (index_step bp) initial_state (dfs_links ns)"
proof -
  have "collect_items bp (map li_of ns) initial_state
      = foldl (index_step bp) initial_state (dfs_links ns)"
    by (rule collect_items_map) (rule collect_items_li_of)
  then show ?thesis
    by (simp add: build_index_def top_list_of_outline collect_files_def)
       (simp add: ol_of_def)
qed

lemma index_of_outline:
  "file_to_topic (build_index bp [ol_of ns]) = index_of_encounters (map (link_key bp) (dfs_links ns))
   \<and> topic_counter (build_index bp [ol_of ns]) = length (file_to_topic (build_index bp [ol_of ns]))"
proof -
  have init: "file_to_topic initial_state = index_of_encounters []"
    "topic_counter initial_state = length (file_to_topic initial_state)"
    by (simp_all add: initial_state_def index_of_encounters_def first_occurrences_def enumerate_eq_zip)
  show ?thesis
    using foldl_index_step_closed [OF init, of bp "dfs_links ns"]
    by (simp add: build_index_outline)
qed


section \<open>The map of a canonical outline\<close>

lemma build_items_Cons:
  "build_items ftt bp (li # lis) indent = build_items ftt bp [li] indent @ build_items ftt bp lis indent"
  by (simp add: Let_def)

lemma build_items_map:
  assumes "\<And>n. n \<in> set ns \<Longrightarrow> build_items ftt bp [li_of n] indent = concat (map (render indent) (shape f n))"
  shows "build_items ftt bp (map li_of ns) indent
       = concat (map (render indent) (concat (map (shape f) ns)))"
  using assms
proof (induction ns)
  case Nil then show ?case by simp
next
  case (Cons n ns)
  have "build_items ftt bp (map li_of (n # ns)) indent
      = build_items ftt bp [li_of n] indent @ build_items ftt bp (map li_of ns) indent"
    using build_items_Cons [of ftt bp "li_of n" "map li_of ns" indent] by simp
  then show ?case using Cons by simp
qed

lemma direct_link_li:
  "find_direct is_a_href (li_of n) =
     (case n of Link t h cs \<Rightarrow> Some (a_tag (t, h)) | Container l cs \<Rightarrow> None)"
proof (cases n)
  case (Link t h cs)
  have a: "Tag ''a'' [(''href'', h)] [Text t] = a_tag (t, h)" by (simp add: a_tag_def)
  show ?thesis unfolding Link li_of.simps a by (simp add: find_direct_def)
next
  case (Container l cs)
  then show ?thesis by (simp add: find_direct_def)
qed

lemma direct_text_container:
  "find_direct is_text (li_of (Container l cs)) =
     (if l \<noteq> [] then Some (Text l) else if cs \<noteq> [] then Some (Text nl) else None)"
  by (simp add: find_direct_def is_text_def list_node_def)

lemma href_a_tag [simp]: "get_attr_default (a_tag (t, h)) ''href'' = h"
  by (simp add: get_attr_default_def get_attr_def a_tag_def)

lemma dfs_links_Link:
  "dfs_links [Link t h cs] = (if is_url h then [] else [(strip t, h)]) @ dfs_links cs"
  by (simp add: dfs_links_def)

lemma dfs_links_Container: "dfs_links [Container l cs] = dfs_links cs"
  by (simp add: dfs_links_def)

lemma set_dfs_links: "set (dfs_links ns) = (\<Union>n \<in> set ns. set (dfs_links [n]))"
proof (induction ns)
  case Nil then show ?case by simp
next
  case (Cons a ns)
  show ?case using Cons dfs_links_Cons [of a ns] by simp
qed

lemma build_items_li_of:
  assumes "\<forall>l \<in> set (dfs_links [n]). map_of ftt (normalize_path (outline_path bp (snd l))) \<noteq> None"
    and "labelled n"
  shows "build_items ftt bp [li_of n] indent
       = concat (map (render indent) (shape (assigned_filename ftt bp) n))"
  using assms
proof (induction n arbitrary: indent)
  case (Link t h cs)
  have sub: "\<forall>l \<in> set (dfs_links [c]). map_of ftt (normalize_path (outline_path bp (snd l))) \<noteq> None"
    if "c \<in> set cs" for c
    using Link.prems(1) that set_dfs_links [of cs] by (auto simp: dfs_links_Link)
  have lab: "labelled c" if "c \<in> set cs" for c
    using Link.prems(2) that by (simp add: list_all_iff)
  have kids: "build_items ftt bp (map li_of cs) i
            = concat (map (render i) (concat (map (shape (assigned_filename ftt bp)) cs)))" for i
    by (rule build_items_map) (rule Link.IH [OF _ sub lab])
  show ?case
  proof (cases "is_url h")
    case True
    then show ?thesis
      using kids by (simp add: direct_link_li nested_li Let_def del: li_of.simps)
  next
    case False
    then have "map_of ftt (normalize_path (outline_path bp h)) \<noteq> None"
      using Link.prems(1) by (simp add: dfs_links_Link)
    then obtain info where info: "map_of ftt (normalize_path (outline_path bp h)) = Some info"
      by blast
    then have fn: "assigned_filename ftt bp h = ti_filename info"
      by (simp add: assigned_filename_def)
    show ?thesis
      using False kids info fn
      by (simp add: direct_link_li nested_li Let_def del: li_of.simps)
  qed
next
  case (Container l cs)
  have sub: "\<forall>l \<in> set (dfs_links [c]). map_of ftt (normalize_path (outline_path bp (snd l))) \<noteq> None"
    if "c \<in> set cs" for c
    using Container.prems(1) that set_dfs_links [of cs] by (auto simp: dfs_links_Container)
  have lab: "labelled c" if "c \<in> set cs" for c
    using Container.prems(2) that by (simp add: list_all_iff)
  have kids: "build_items ftt bp (map li_of cs) i
            = concat (map (render i) (concat (map (shape (assigned_filename ftt bp)) cs)))" for i
    by (rule build_items_map) (rule Container.IH [OF _ sub lab])
  have l: "strip l \<noteq> []" using Container.prems(2) by simp
  then have l0: "l \<noteq> []" by (auto simp: strip_def)
  show ?case
    using l l0 kids
    by (simp add: direct_link_li nested_li direct_text_container Let_def del: li_of.simps)
qed

lemma outline_links_indexed:
  "l \<in> set (dfs_links ns) \<Longrightarrow>
   map_of (file_to_topic (build_index bp [ol_of ns])) (normalize_path (outline_path bp (snd l))) \<noteq> None"
proof -
  assume a: "l \<in> set (dfs_links ns)"
  have "fst (link_key bp l) \<in> set (map fst (index_of_encounters (map (link_key bp) (dfs_links ns))))"
    using a by (simp add: image_image) 
  then show ?thesis
    using index_of_outline [of bp ns]
    by (simp add: link_key_def map_of_eq_None_iff del: keys_index_of_encounters)
qed

lemma map_of_outline:
  assumes "list_all labelled ns"
  shows "build_map_structure (file_to_topic (build_index bp [ol_of ns])) bp (ol_of ns) indent
       = concat (map (render indent)
           (concat (map (shape (assigned_filename (file_to_topic (build_index bp [ol_of ns])) bp)) ns)))"
proof -
  let ?ftt = "file_to_topic (build_index bp [ol_of ns])"
  have "build_items ?ftt bp (map li_of ns) indent
      = concat (map (render indent) (concat (map (shape (assigned_filename ?ftt bp)) ns)))"
  proof (rule build_items_map)
    fix n assume n: "n \<in> set ns"
    have "\<forall>l \<in> set (dfs_links [n]). map_of ?ftt (normalize_path (outline_path bp (snd l))) \<noteq> None"
      using outline_links_indexed [of _ ns bp] set_dfs_links [of ns] n by blast
    moreover have "labelled n" using assms n by (simp add: list_all_iff)
    ultimately show "build_items ?ftt bp [li_of n] indent
        = concat (map (render indent) (shape (assigned_filename ?ftt bp) n))"
      by (rule build_items_li_of)
  qed
  then show ?thesis
    by (simp add: build_map_structure_def ol_of_def)
qed


section \<open>Image classification\<close>

text \<open>
  C7. An image is classified inline exactly when its parent is a \<^verbatim>\<open>span\<close>, or its parent
  is a block container (\<^verbatim>\<open>p\<close>, \<^verbatim>\<open>div\<close>, \<^verbatim>\<open>li\<close>, \<^verbatim>\<open>td\<close>, \<^verbatim>\<open>th\<close>) that has a child other
  than an image whose text holds a character that is not whitespace; in every other case
  it is classified block. So an image next to text in a table cell is inline, and an
  image that is the only child of its paragraph is block.
\<close>

theorem is_inline_image_iff:
  "(is_inline_image (Some p) \<longleftrightarrow>
      tag_name p = Some ''span'' \<or>
      (tag_name p \<in> Some ` set block_parents \<and>
       (\<exists>c \<in> set (children p). tag_name c \<noteq> Some ''img'' \<and>
          (\<exists>ch \<in> set (get_text c). \<not> is_space ch))))
   \<and> (\<not> is_space ch \<longrightarrow>
        is_inline_image (Some (Tag ''td'' as (pre @ [Tag ''img'' ias ics] @ mid @ [Text (s1 @ [ch] @ s2)] @ post))))
   \<and> \<not> is_inline_image (Some (Tag ''p'' as [Tag ''img'' ias ics]))
   \<and> \<not> is_inline_image None"
proof -
  have a: "is_inline_image (Some p) \<longleftrightarrow>
      tag_name p = Some ''span'' \<or>
      (tag_name p \<in> Some ` set block_parents \<and>
       (\<exists>c \<in> set (children p). tag_name c \<noteq> Some ''img'' \<and>
          (\<exists>ch \<in> set (get_text c). \<not> is_space ch)))" for p
    unfolding is_inline_image_def
    by (auto simp: strip_nonempty_iff foldl_text_step)
  have b: "is_inline_image (Some (Tag ''td'' as (pre @ [Tag ''img'' ias ics] @ mid @ [Text (s1 @ [ch] @ s2)] @ post)))"
    if "\<not> is_space ch"
  proof -
    have "tag_name (Text (s1 @ [ch] @ s2)) \<noteq> Some ''img''" by simp
    moreover have "\<exists>x \<in> set (get_text (Text (s1 @ [ch] @ s2))). \<not> is_space x"
      using that by simp
    ultimately have "\<exists>c \<in> set (pre @ [Tag ''img'' ias ics] @ mid @ [Text (s1 @ [ch] @ s2)] @ post).
        tag_name c \<noteq> Some ''img'' \<and> (\<exists>x \<in> set (get_text c). \<not> is_space x)"
      by (intro bexI [of _ "Text (s1 @ [ch] @ s2)"]) simp_all
    then show ?thesis
      unfolding a by (simp add: block_parents_def)
  qed
  have c: "\<not> is_inline_image (Some (Tag ''p'' as [Tag ''img'' ias ics]))"
    unfolding a by simp
  have d: "\<not> is_inline_image None"
    by (simp add: is_inline_image_def)
  from a b c d show ?thesis by blast
qed

theorem is_inline_image_iff_witness:
  "is_inline_image (Some (Tag ''td'' [] [Tag ''img'' [(''src'', ''a.png'')] [], Text '' Save'']))
   \<and> \<not> is_inline_image (Some (Tag ''p'' [] [Tag ''img'' [(''src'', ''a.png'')] []]))
   \<and> \<not> is_inline_image (Some (Tag ''p'' [] [Text [CHR 0x0A], Tag ''img'' [(''src'', ''a.png'')] []]))
   \<and> is_inline_image (Some (Tag ''span'' [] [Tag ''img'' [(''src'', ''a.png'')] []]))"
proof -
  have sp: "\<not> is_space (CHR ''S'')" by (simp add: is_space_def)
  have 1: "is_inline_image (Some (Tag ''td'' [] [Tag ''img'' [(''src'', ''a.png'')] [], Text '' Save'']))"
  proof -
    have "is_inline_image (Some (Tag ''td'' [] ([] @ [Tag ''img'' [(''src'', ''a.png'')] []] @ []
            @ [Text ('' '' @ [CHR ''S''] @ ''ave'')] @ [])))"
      using is_inline_image_iff [of _ "CHR ''S''"] sp by blast
    then show ?thesis by simp
  qed
  have 2: "\<not> is_inline_image (Some (Tag ''p'' [] [Tag ''img'' [(''src'', ''a.png'')] []]))"
    using is_inline_image_iff by blast
  have 3: "\<not> is_inline_image (Some (Tag ''p'' [] [Text [CHR 0x0A], Tag ''img'' [(''src'', ''a.png'')] []]))"
    using is_inline_image_iff [of "Tag ''p'' [] [Text [CHR 0x0A], Tag ''img'' [(''src'', ''a.png'')] []]"]
    by (simp add: is_space_def)
  have 4: "is_inline_image (Some (Tag ''span'' [] [Tag ''img'' [(''src'', ''a.png'')] []]))"
    using is_inline_image_iff [of "Tag ''span'' [] [Tag ''img'' [(''src'', ''a.png'')] []]"]
    by simp
  from 1 2 3 4 show ?thesis by blast
qed

section \<open>The index of a canonical outline\<close>

lemma map_fst_enumerate_fun:
  "map (\<lambda>x. h (fst x)) (enumerate n ks) = map h [n..<n + length ks]"
  by (rule nth_equalityI) (simp_all add: nth_enumerate_eq)

lemma length_index_of_encounters:
  "length (index_of_encounters E) = length (first_occurrences (map fst E))"
  by (simp add: index_of_encounters_def)

lemma ids_index_of_encounters:
  "map (ti_id \<circ> snd) (index_of_encounters E)
     = map topic_name [1..<Suc (length (index_of_encounters E))]"
proof -
  let ?ks = "first_occurrences (map fst E)"
  have "map (ti_id \<circ> snd) (index_of_encounters E)
      = map (\<lambda>x. topic_name (Suc (fst x))) (enumerate 0 ?ks)"
    by (simp add: index_of_encounters_def topic_record_def comp_def case_prod_unfold)
  also have "\<dots> = map (\<lambda>i. topic_name (Suc i)) [0..<length ?ks]"
    using map_fst_enumerate_fun [of _ 0 ?ks] by simp
  also have "\<dots> = map topic_name (map Suc [0..<length ?ks])"
    by (simp add: comp_def)
  finally show ?thesis
    by (simp only: map_Suc_upt length_index_of_encounters) simp
qed

lemma filenames_index_of_encounters:
  "map (ti_filename \<circ> snd) (index_of_encounters E)
     = map (\<lambda>i. topic_name i @ ''.dita'') [1..<Suc (length (index_of_encounters E))]"
proof -
  let ?ks = "first_occurrences (map fst E)"
  have "map (ti_filename \<circ> snd) (index_of_encounters E)
      = map (\<lambda>x. topic_name (Suc (fst x)) @ ''.dita'') (enumerate 0 ?ks)"
    by (simp add: index_of_encounters_def topic_record_def comp_def case_prod_unfold)
  also have "\<dots> = map (\<lambda>i. topic_name (Suc i) @ ''.dita'') [0..<length ?ks]"
    using map_fst_enumerate_fun [of _ 0 ?ks] by simp
  also have "\<dots> = map (\<lambda>i. topic_name i @ ''.dita'') (map Suc [0..<length ?ks])"
    by (simp add: comp_def)
  finally show ?thesis
    by (simp only: map_Suc_upt length_index_of_encounters) simp
qed

lemma map_of_numbered_Some:
  "map_of (map (\<lambda>(i, k). (k, F i k)) xs) k = Some r \<Longrightarrow> \<exists>i. r = F i k"
  by (induction xs) (auto split: if_splits)

lemma map_of_numbered_None:
  "map_of (map (\<lambda>(i, k). (k, F i k)) xs) k = None \<longleftrightarrow> k \<notin> snd ` set xs"
  by (induction xs) (auto split: if_splits)

lemma titles_index_of_encounters:
  "map_option ti_title (map_of (index_of_encounters E) k) = map_of E k"
proof (cases "map_of E k")
  case None
  then have "k \<notin> fst ` set E" by (simp add: map_of_eq_None_iff)
  then have "k \<notin> set (map fst (index_of_encounters E))"
    by simp
  then have "map_of (index_of_encounters E) k = None"
    by (simp add: map_of_eq_None_iff del: keys_index_of_encounters)
  then show ?thesis using None by simp
next
  case (Some t)
  then have "k \<in> fst ` set E" by (metis map_of_eq_None_iff option.distinct(1))
  then have "k \<in> set (map fst (index_of_encounters E))"
    by simp
  then have "map_of (index_of_encounters E) k \<noteq> None"
    by (simp add: map_of_eq_None_iff del: keys_index_of_encounters)
  then obtain r where r: "map_of (index_of_encounters E) k = Some r" by blast
  then obtain i where "r = topic_record (Suc i) (first_title E k)"
    unfolding index_of_encounters_def by (drule_tac map_of_numbered_Some) blast
  then have "ti_title r = t"
    using Some by (simp add: topic_record_def first_title_def)
  then show ?thesis using r Some by simp
qed

lemma register_link_known:
  "map_of (file_to_topic st) (normalize_path (outline_path bp h)) \<noteq> None \<Longrightarrow>
   register_link bp t h st = st"
  by (simp add: register_link_def Let_def)

text \<open>
  C1. For every canonical outline, the index that the first pass builds holds one record
  for each distinct normalized key, in the order in which the depth-first, left-to-right
  traversal first meets the keys; the ids are \<^verbatim>\<open>topic_1\<close>, \<^verbatim>\<open>topic_2\<close>, ... in that order,
  each filename is the id with \<^verbatim>\<open>.dita\<close>; the title of a key is the title of its first
  link; and registering a link whose key is already present leaves the whole state as it is.
\<close>

theorem index_of_canonical_outline:
  "(let ftt = file_to_topic (build_index bp [ol_of ns]);
        E = map (link_key bp) (dfs_links ns)
    in map fst ftt = first_occurrences (map fst E)
     \<and> distinct (map fst ftt)
     \<and> map (ti_id \<circ> snd) ftt = map topic_name [1..<Suc (length ftt)]
     \<and> map (ti_filename \<circ> snd) ftt = map (\<lambda>i. topic_name i @ ''.dita'') [1..<Suc (length ftt)]
     \<and> topic_counter (build_index bp [ol_of ns]) = length ftt
     \<and> (\<forall>k. map_option ti_title (map_of ftt k) = map_of E k))
   \<and> (\<forall>st t h. map_of (file_to_topic st) (normalize_path (outline_path bp h)) \<noteq> None
         \<longrightarrow> register_link bp t h st = st)"
proof -
  let ?E = "map (link_key bp) (dfs_links ns)"
  have c: "file_to_topic (build_index bp [ol_of ns]) = index_of_encounters ?E"
    and n: "topic_counter (build_index bp [ol_of ns]) = length (file_to_topic (build_index bp [ol_of ns]))"
    using index_of_outline [of bp ns] by simp_all
  have 1: "map fst (index_of_encounters ?E) = first_occurrences (map fst ?E)"
    by (rule keys_index_of_encounters)
  have 2: "distinct (map fst (index_of_encounters ?E))"
    unfolding 1 by (rule distinct_first_occurrences)
  show ?thesis
    unfolding Let_def c
    using 1 2 ids_index_of_encounters [of ?E] filenames_index_of_encounters [of ?E]
      titles_index_of_encounters [of ?E] n [unfolded c] register_link_known
    by blast
qed


theorem index_of_canonical_outline_witness:
  "map fst (file_to_topic (build_index ''md''
      [ol_of [Link ''Intro'' ''guide/intro.html'' [],
              Link '' Layers '' ''guide/layers.html'' [Link ''Again'' ''/guide/intro.html'' []]]]))
     = [''md/guide/intro.md'', ''md/guide/layers.md'']
   \<and> map (ti_id \<circ> snd) (file_to_topic (build_index ''md''
      [ol_of [Link ''Intro'' ''guide/intro.html'' [],
              Link '' Layers '' ''guide/layers.html'' [Link ''Again'' ''/guide/intro.html'' []]]]))
     = [''topic_1'', ''topic_2'']
   \<and> map_option ti_title (map_of (file_to_topic (build_index ''md''
      [ol_of [Link ''Intro'' ''guide/intro.html'' [],
              Link '' Layers '' ''guide/layers.html'' [Link ''Again'' ''/guide/intro.html'' []]]]))
        ''md/guide/intro.md'') = Some ''Intro''
   \<and> register_link ''md'' ''Again'' ''/guide/intro.html'' (build_index ''md''
      [ol_of [Link ''Intro'' ''guide/intro.html'' [],
              Link '' Layers '' ''guide/layers.html'' [Link ''Again'' ''/guide/intro.html'' []]]])
     = build_index ''md''
      [ol_of [Link ''Intro'' ''guide/intro.html'' [],
              Link '' Layers '' ''guide/layers.html'' [Link ''Again'' ''/guide/intro.html'' []]]]"
proof -
  let ?ns = "[Link ''Intro'' ''guide/intro.html'' [],
              Link '' Layers '' ''guide/layers.html'' [Link ''Again'' ''/guide/intro.html'' []]]"
  let ?st = "build_index ''md'' [ol_of ?ns]"
  let ?E = "map (link_key ''md'') (dfs_links ?ns)"
  note t = index_of_canonical_outline [of "''md''" ?ns, unfolded Let_def]
  have e1: "first_occurrences (map fst ?E) = [''md/guide/intro.md'', ''md/guide/layers.md'']"
    by code_simp
  have e2: "map topic_name [1..<Suc 2] = [''topic_1'', ''topic_2'']"
    by code_simp
  have e3: "map_of ?E ''md/guide/intro.md'' = Some ''Intro''"
    by code_simp
  have e4: "normalize_path (outline_path ''md'' ''/guide/intro.html'') = ''md/guide/intro.md''"
    by code_simp
  have k: "map fst (file_to_topic ?st) = [''md/guide/intro.md'', ''md/guide/layers.md'']"
    using t e1 by simp
  then have len: "length (file_to_topic ?st) = 2"
    by (metis length_map length_Cons list.size(3) numeral_2_eq_2)
  have i: "map (ti_id \<circ> snd) (file_to_topic ?st) = [''topic_1'', ''topic_2'']"
    using t e2 len by simp
  have ti: "map_option ti_title (map_of (file_to_topic ?st) ''md/guide/intro.md'') = Some ''Intro''"
    using t e3 by simp
  then have "map_of (file_to_topic ?st) (normalize_path (outline_path ''md'' ''/guide/intro.html'')) \<noteq> None"
    unfolding e4 by auto
  then have r: "register_link ''md'' ''Again'' ''/guide/intro.html'' ?st = ?st"
    using t by blast
  from k i ti r show ?thesis by blast
qed

text \<open>
  C2. The first pass starts from an empty index on every run and its result is a function
  of the sequence of (key, title) pairs that the traversal meets: the mapping from key to
  id, filename and title is \<open>index_of_encounters\<close> of that sequence, so two runs on
  outlines with the same traversal sequence give identical mappings.
\<close>

theorem index_determined_by_traversal:
  "file_to_topic (build_index bp toc) = index_of_encounters (encounters bp toc)
   \<and> (encounters bp toc = encounters bp toc' \<longrightarrow>
        file_to_topic (build_index bp toc) = file_to_topic (build_index bp toc')
        \<and> topic_counter (build_index bp toc) = topic_counter (build_index bp toc'))"
  using build_index_closed [of bp toc] build_index_closed [of bp toc'] by simp

theorem index_determined_by_traversal_witness:
  "encounters ''md''
     [Tag ''ol'' [] [Tag ''li'' [] [Tag ''a'' [(''href'', ''a.html'')] [Text ''A'']],
                     Tag ''li'' [] [Tag ''a'' [(''href'', ''b.html'')] [Text ''B'']]]]
   = encounters ''md''
     [Text ''x'', Tag ''ul'' [] [Text '' '',
        Tag ''li'' [] [Tag ''a'' [(''href'', ''./a.html'')] [Tag ''b'' [] [Text '' A '']],
          Tag ''ul'' [] [Tag ''li'' [] [Tag ''a'' [(''href'', ''/b.html'')] [Text ''B'']]]]]]
   \<and> file_to_topic (build_index ''md''
     [Tag ''ol'' [] [Tag ''li'' [] [Tag ''a'' [(''href'', ''a.html'')] [Text ''A'']],
                     Tag ''li'' [] [Tag ''a'' [(''href'', ''b.html'')] [Text ''B'']]]])
   = file_to_topic (build_index ''md''
     [Text ''x'', Tag ''ul'' [] [Text '' '',
        Tag ''li'' [] [Tag ''a'' [(''href'', ''./a.html'')] [Tag ''b'' [] [Text '' A '']],
          Tag ''ul'' [] [Tag ''li'' [] [Tag ''a'' [(''href'', ''/b.html'')] [Text ''B'']]]]]])"
proof -
  let ?t1 = "[Tag ''ol'' [] [Tag ''li'' [] [Tag ''a'' [(''href'', ''a.html'')] [Text ''A'']],
                     Tag ''li'' [] [Tag ''a'' [(''href'', ''b.html'')] [Text ''B'']]]]"
  let ?t2 = "[Text ''x'', Tag ''ul'' [] [Text '' '',
        Tag ''li'' [] [Tag ''a'' [(''href'', ''./a.html'')] [Tag ''b'' [] [Text '' A '']],
          Tag ''ul'' [] [Tag ''li'' [] [Tag ''a'' [(''href'', ''/b.html'')] [Text ''B'']]]]]]"
  have h: "encounters ''md'' ?t1 = encounters ''md'' ?t2"
    by code_simp
  from index_determined_by_traversal [of "''md''" ?t1 ?t2] h
  have "file_to_topic (build_index ''md'' ?t1) = file_to_topic (build_index ''md'' ?t2)"
    by blast
  with h show ?thesis by blast
qed

text \<open>
  Where every container of the outline is labelled, the lines that the map builder emits
  are the rendering of the outline's shape: a container reference around the children of
  a link that has children, a leaf reference for a link without children, nothing for a
  link to a URL, whose children take its place, each reference carrying the filename
  that the index assigned to the link's key, which is always present.
\<close>

theorem labelled_outline_map:
  "(list_all labelled ns \<longrightarrow>
      build_map_structure (file_to_topic (build_index bp [ol_of ns])) bp (ol_of ns) indent
        = concat (map (render indent) (concat (map
            (shape (assigned_filename (file_to_topic (build_index bp [ol_of ns])) bp)) ns)))
      \<and> (\<forall>l \<in> set (dfs_links ns).
            map_of (file_to_topic (build_index bp [ol_of ns]))
              (normalize_path (outline_path bp (snd l))) \<noteq> None))
   \<and> (\<not> is_url ha \<and> \<not> is_url h1 \<and> \<not> is_url h2 \<and> \<not> is_url hb \<and>
       A = [Link ta ha [Link t1 h1 [], Link t2 h2 []], Link tb hb []] \<and>
       f = assigned_filename (file_to_topic (build_index bp [ol_of A])) bp \<longrightarrow>
      build_map_structure (file_to_topic (build_index bp [ol_of A])) bp (ol_of A) indent
        = [indent @ ''<topicref href='' @ dq @ f ha @ dq @ ''>'',
           indent @ ''  '' @ ''<topicref href='' @ dq @ f h1 @ dq @ ''/>'',
           indent @ ''  '' @ ''<topicref href='' @ dq @ f h2 @ dq @ ''/>'',
           indent @ ''</topicref>'',
           indent @ ''<topicref href='' @ dq @ f hb @ dq @ ''/>''])"
proof -
  have main: "build_map_structure (file_to_topic (build_index bp [ol_of ns])) bp (ol_of ns) indent
        = concat (map (render indent) (concat (map
            (shape (assigned_filename (file_to_topic (build_index bp [ol_of ns])) bp)) ns)))"
    if "list_all labelled ns" for ns
    using that by (rule map_of_outline)
  have ind: "\<forall>l \<in> set (dfs_links ns).
            map_of (file_to_topic (build_index bp [ol_of ns]))
              (normalize_path (outline_path bp (snd l))) \<noteq> None"
    using outline_links_indexed [of _ ns bp] by blast
  have scen: "build_map_structure (file_to_topic (build_index bp [ol_of A])) bp (ol_of A) indent
        = [indent @ ''<topicref href='' @ dq @ f ha @ dq @ ''>'',
           indent @ ''  '' @ ''<topicref href='' @ dq @ f h1 @ dq @ ''/>'',
           indent @ ''  '' @ ''<topicref href='' @ dq @ f h2 @ dq @ ''/>'',
           indent @ ''</topicref>'',
           indent @ ''<topicref href='' @ dq @ f hb @ dq @ ''/>'']"
    if u: "\<not> is_url ha" "\<not> is_url h1" "\<not> is_url h2" "\<not> is_url hb"
      and A: "A = [Link ta ha [Link t1 h1 [], Link t2 h2 []], Link tb hb []]"
      and f: "f = assigned_filename (file_to_topic (build_index bp [ol_of A])) bp"
  proof -
    have "list_all labelled A" unfolding A by simp
    from main [OF this] show ?thesis
      unfolding f [symmetric] unfolding A using u by simp
  qed
  from main ind scen show ?thesis by blast
qed

theorem labelled_outline_map_example:
  "list_all labelled [Link ''A'' ''a.html'' [Link ''A1'' ''a1.html'' [], Link ''A2'' ''a2.html'' []],
                      Link ''B'' ''b.html'' []]
   \<and> build_map_structure
       (file_to_topic (build_index ''md''
          [ol_of [Link ''A'' ''a.html'' [Link ''A1'' ''a1.html'' [], Link ''A2'' ''a2.html'' []],
                  Link ''B'' ''b.html'' []]]))
       ''md''
       (ol_of [Link ''A'' ''a.html'' [Link ''A1'' ''a1.html'' [], Link ''A2'' ''a2.html'' []],
               Link ''B'' ''b.html'' []])
       ''  ''
     = [''  <topicref href='' @ dq @ ''topic_1.dita'' @ dq @ ''>'',
        ''    <topicref href='' @ dq @ ''topic_2.dita'' @ dq @ ''/>'',
        ''    <topicref href='' @ dq @ ''topic_3.dita'' @ dq @ ''/>'',
        ''  </topicref>'',
        ''  <topicref href='' @ dq @ ''topic_4.dita'' @ dq @ ''/>'']"
proof -
  let ?A = "[Link ''A'' ''a.html'' [Link ''A1'' ''a1.html'' [], Link ''A2'' ''a2.html'' []],
             Link ''B'' ''b.html'' []]"
  let ?ftt = "file_to_topic (build_index ''md'' [ol_of ?A])"
  have l: "list_all labelled ?A" by simp
  have r: "concat (map (render ''  '') (concat (map (shape (assigned_filename ?ftt ''md'')) ?A)))
     = [''  <topicref href='' @ dq @ ''topic_1.dita'' @ dq @ ''>'',
        ''    <topicref href='' @ dq @ ''topic_2.dita'' @ dq @ ''/>'',
        ''    <topicref href='' @ dq @ ''topic_3.dita'' @ dq @ ''/>'',
        ''  </topicref>'',
        ''  <topicref href='' @ dq @ ''topic_4.dita'' @ dq @ ''/>'']"
    by code_simp
  from labelled_outline_map [of ?A "''md''" "''  ''"] l
  have "build_map_structure ?ftt ''md'' (ol_of ?A) ''  ''
      = concat (map (render ''  '') (concat (map (shape (assigned_filename ?ftt ''md'')) ?A)))"
    by blast
  with l r show ?thesis by (simp only:) 
qed


text \<open>
  C6. An outline with a container that has no label over the links A and B. The nested
  list is followed by a line break, so the first string of the item is that line break:
  it is not empty (line 813) and strips to nothing (line 815), nothing is written and the
  branch of line 820 that descends into the nested list is not reached. Both links are
  indexed, and the map refers to neither. The same item without the line break has no
  string at all, takes the branch of line 820 and gives the two leaf references.
\<close>

theorem unlabelled_container_drops_links:
  "map fst (file_to_topic (build_index ''md'' [ol_of unlabelled_outline]))
     = [''md/a.md'', ''md/b.md'']
   \<and> map (ti_filename \<circ> snd) (file_to_topic (build_index ''md'' [ol_of unlabelled_outline]))
     = [''topic_1.dita'', ''topic_2.dita'']
   \<and> build_map_structure (file_to_topic (build_index ''md'' [ol_of unlabelled_outline])) ''md''
       (ol_of unlabelled_outline) ''  '' = []
   \<and> concat (map (render ''  '')
        (concat (map (shape (assigned_filename
           (file_to_topic (build_index ''md'' [ol_of unlabelled_outline])) ''md''))
           [Link ''A'' ''a.html'' [], Link ''B'' ''b.html'' []])))
     = [''  <topicref href='' @ dq @ ''topic_1.dita'' @ dq @ ''/>'',
        ''  <topicref href='' @ dq @ ''topic_2.dita'' @ dq @ ''/>'']
   \<and> build_map_structure (file_to_topic (build_index ''md'' [ol_of unlabelled_outline])) ''md''
       (Tag ''ol'' [] [Tag ''li'' []
          [ol_of [Link ''A'' ''a.html'' [], Link ''B'' ''b.html'' []]]]) ''  ''
     = [''  <topicref href='' @ dq @ ''topic_1.dita'' @ dq @ ''/>'',
        ''  <topicref href='' @ dq @ ''topic_2.dita'' @ dq @ ''/>'']"
  by code_simp

section \<open>The numbering of headings\<close>

lemma startswith_hash: "startswith s ''#'' \<longleftrightarrow> s \<noteq> [] \<and> hd s = CHR ''#''"
  by (cases s) (auto simp: startswith_def)

lemma heading_level_0: "heading_level line = 0 \<longleftrightarrow> \<not> startswith (strip line) ''#''"
  by (cases "strip line") (auto simp: heading_level_def startswith_def)

lemma convert_line_skip:
  assumes "strip line = [] \<or> startswith (strip line) ''#''" "heading_level line < 2"
  shows "convert_line st line = st"
proof (cases "startswith (strip line) ''#''")
  case True
  then have "heading_level line \<noteq> 0" by (simp add: heading_level_0)
  then have "heading_level line = 1" using assms(2) by simp
  then show ?thesis
    using True by (simp add: convert_line_def heading_line_def heading_level_def Let_def)
next
  case False
  then show ?thesis using assms(1) by (simp add: convert_line_def)
qed

lemma convert_line_heading:
  assumes "2 \<le> heading_level line" "heading_level line \<le> 11"
    and "counters_agree prev (item_counters st)"
  shows "output_lines (convert_line st line) = output_lines st @
           [indent_of (heading_level line - 2)
              @ str_of_nat (sibling_number prev (heading_level line - 2)) @ ''. ''
              @ heading_title line]
       \<and> counters_agree ((heading_level line - 2) # prev) (item_counters (convert_line st line))"
proof -
  let ?e = "heading_level line - 2"
  let ?cleared = "\<lambda>k. if ?e + 1 \<le> k \<and> k < 10 then None else item_counters st k"
  have h: "startswith (strip line) ''#''"
    using assms(1) heading_level_0 [of line] by auto
  have e: "?e < 10" using assms(2) by simp
  have c: "get_counter ?cleared ?e + 1 = sibling_number prev ?e"
    using assms(3) e by (simp add: counters_agree_def get_counter_def)
  have st: "convert_line st line =
      \<lparr>output_lines = output_lines st @
         [if ?e = 0 then str_of_nat (get_counter ?cleared ?e + 1) @ ''. '' @ heading_title line
          else indent_of ?e @ str_of_nat (get_counter ?cleared ?e + 1) @ ''. '' @ heading_title line],
       heading_stack = rev (dropWhile (\<lambda>l. l \<ge> heading_level line) (rev (heading_stack st)))
                       @ [heading_level line],
       item_counters = ?cleared(?e \<mapsto> get_counter ?cleared ?e + 1)\<rparr>"
    using h assms(1)
    by (simp add: convert_line_def heading_line_def Let_def heading_level_def heading_title_def)
  have out: "output_lines (convert_line st line) = output_lines st @
           [indent_of ?e @ str_of_nat (sibling_number prev ?e) @ ''. '' @ heading_title line]"
    unfolding st c by (simp add: indent_of_def)
  have agree: "counters_agree (?e # prev) (item_counters (convert_line st line))"
    unfolding counters_agree_def
  proof (intro allI impI)
    fix d :: nat assume d: "d < 10"
    have old: "get_counter (item_counters st) d + 1 = sibling_number prev d"
      using assms(3) d by (simp add: counters_agree_def)
    show "get_counter (item_counters (convert_line st line)) d + 1 = sibling_number (?e # prev) d"
    proof (cases "d = ?e")
      case True
      then show ?thesis unfolding st using c by (simp add: get_counter_def)
    next
      case False
      show ?thesis
      proof (cases "?e < d")
        case True
        then show ?thesis unfolding st using d by (simp add: get_counter_def)
      next
        case False
        with \<open>d \<noteq> ?e\<close> have "d < ?e" by simp
        then show ?thesis unfolding st using old by (simp add: get_counter_def)
      qed
    qed
  qed
  from out agree show ?thesis by blast
qed

lemma foldl_convert_line:
  assumes "heading_only lines" "list_all (\<lambda>l. heading_level l \<le> 11) lines"
    and "counters_agree prev (item_counters st)"
  shows "output_lines (foldl convert_line st lines) = output_lines st @ numbered_entries prev lines"
  using assms
proof (induction lines arbitrary: st prev)
  case Nil
  then show ?case by simp
next
  case (Cons line lines)
  have ho: "heading_only lines" and lv: "list_all (\<lambda>l. heading_level l \<le> 11) lines"
    and this_line: "strip line = [] \<or> startswith (strip line) ''#''"
    and this_level: "heading_level line \<le> 11"
    using Cons.prems by (simp_all add: heading_only_def)
  show ?case
  proof (cases "heading_level line < 2")
    case True
    then have "convert_line st line = st" using this_line by (intro convert_line_skip)
    then show ?thesis
      using True Cons.IH [OF ho lv Cons.prems(3)] by simp
  next
    case False
    then have two: "2 \<le> heading_level line" by simp
    note step = convert_line_heading [OF two this_level Cons.prems(3)]
    have "output_lines (foldl convert_line (convert_line st line) lines)
        = output_lines (convert_line st line)
          @ numbered_entries ((heading_level line - 2) # prev) lines"
      using step by (intro Cons.IH [OF ho lv]) simp
    then show ?thesis using step False by simp
  qed
qed

text \<open>
  The counters of the indent levels up to 9 are deleted when a shallower heading comes
  (line 561), so the numbering within scopes holds for headings of up to eleven \<^verbatim>\<open>#\<close>.
\<close>

lemma headings_up_to_depth_9:
  assumes "heading_only (split_on (CHR 0x0A) md_text)"
    and "list_all (\<lambda>l. heading_level l \<le> 11) (split_on (CHR 0x0A) md_text)"
  shows "convert_headings_to_lists md_text
       = join nl (numbered_entries [] (split_on (CHR 0x0A) md_text))"
proof -
  have "counters_agree [] (item_counters \<lparr>output_lines = [], heading_stack = [], item_counters = Map.empty\<rparr>)"
    by (simp add: counters_agree_def get_counter_def)
  from foldl_convert_line [OF assms this]
  show ?thesis by (simp add: convert_headings_to_lists_def)
qed

text \<open>
  The counters of the depths 10 and more are never deleted: in \<open>deep_outline\<close>, whose
  lines of twelve \<^verbatim>\<open>#\<close> are no headings of the notation, \<^verbatim>\<open>Y\<close> is numbered 2.
\<close>

lemma deep_lines_keep_counting:
  "convert_headings_to_lists deep_outline
       = ''1. A'' @ nl @ indent_of 10 @ ''1. X'' @ nl @ ''2. B'' @ nl @ indent_of 10 @ ''2. Y''"
  by code_simp

text \<open>
  C8. A heading of the outline has one to six \<^verbatim>\<open>#\<close>. For an outline of such headings
  and blank lines only, the output has one numbered entry for every heading of level 2 or
  more, at depth level - 2 (four spaces for each depth), and the number of an entry is
  one more than the number of entries at its depth since the last shallower entry: the
  counter of a depth starts at 1 in every new scope and continues among siblings.
\<close>

theorem headings_numbered_in_outline:
  assumes "heading_only (split_on (CHR 0x0A) md_text)"
    and "list_all (\<lambda>l. heading_level l \<le> 6) (split_on (CHR 0x0A) md_text)"
  shows "convert_headings_to_lists md_text
       = join nl (numbered_entries [] (split_on (CHR 0x0A) md_text))"
proof -
  have "list_all (\<lambda>l. heading_level l \<le> 11) (split_on (CHR 0x0A) md_text)"
    using assms(2) by (auto simp: list_all_iff)
  with assms(1) show ?thesis by (rule headings_up_to_depth_9)
qed

theorem headings_numbered_in_outline_witness:
  "heading_only (split_on (CHR 0x0A) sample_outline)
   \<and> list_all (\<lambda>l. heading_level l \<le> 6) (split_on (CHR 0x0A) sample_outline)
   \<and> convert_headings_to_lists sample_outline
       = ''1. Start'' @ nl @ ''    1. Install'' @ nl @ ''    2. Run'' @ nl @ ''2. Layers'' @ nl
         @ ''    1. Blend''"
proof -
  have h1: "heading_only (split_on (CHR 0x0A) sample_outline)" by code_simp
  have h2: "list_all (\<lambda>l. heading_level l \<le> 6) (split_on (CHR 0x0A) sample_outline)"
    by code_simp
  have r: "join nl (numbered_entries [] (split_on (CHR 0x0A) sample_outline))
       = ''1. Start'' @ nl @ ''    1. Install'' @ nl @ ''    2. Run'' @ nl @ ''2. Layers'' @ nl
         @ ''    1. Blend''"
    by code_simp
  from headings_numbered_in_outline [OF h1 h2] r h1 h2 show ?thesis by (simp only:)
qed

section \<open>Tables\<close>






















section \<open>Numerals and filenames\<close>

lemma digit_chars: "map digit_char [0..<10] = ''0123456789''"
  by code_simp

lemma digit_char_digit: "d < 10 \<Longrightarrow> digit_char d \<in> set ''0123456789''"
proof -
  assume "d < 10"
  then have "map digit_char [0..<10] ! d \<in> set (map digit_char [0..<10])"
    by (intro nth_mem) simp
  moreover have "map digit_char [0..<10] ! d = digit_char d"
    using \<open>d < 10\<close> by (simp del: upt_Suc)
  ultimately show ?thesis unfolding digit_chars by simp
qed

lemma digit_values: "map (\<lambda>d. digit_value (digit_char d)) [0..<10] = [0..<10]"
  by code_simp

lemma digit_value_char: "d < 10 \<Longrightarrow> digit_value (digit_char d) = d"
proof -
  assume d: "d < 10"
  have "map (\<lambda>d. digit_value (digit_char d)) [0..<10] ! d = [0..<10] ! d"
    unfolding digit_values ..
  then show ?thesis using d by (simp del: upt_Suc)
qed

lemma str_of_nat_digits: "set (str_of_nat n) \<subseteq> set ''0123456789''"
proof (induction n rule: str_of_nat.induct)
  case (1 n)
  show ?case
  proof (cases "n < 10")
    case True
    then show ?thesis using digit_char_digit [of n] by (subst str_of_nat.simps) simp
  next
    case False
    have "n mod 10 < 10" by simp
    then show ?thesis
      using False 1 digit_char_digit [of "n mod 10"] by (subst str_of_nat.simps) simp
  qed
qed

lemma nat_of_digits_snoc: "nat_of_digits (ds @ [c]) = 10 * nat_of_digits ds + digit_value c"
  by (simp add: nat_of_digits_def)

lemma nat_of_digits_str: "nat_of_digits (str_of_nat n) = n"
proof (induction n rule: str_of_nat.induct)
  case (1 n)
  show ?case
  proof (cases "n < 10")
    case True
    then show ?thesis
      by (subst str_of_nat.simps) (simp add: nat_of_digits_def digit_value_char)
  next
    case False
    have "n mod 10 < 10" by simp
    then show ?thesis
      using False 1 by (subst str_of_nat.simps) (simp add: nat_of_digits_snoc digit_value_char)
  qed
qed

lemma str_of_nat_inj: "str_of_nat m = str_of_nat n \<Longrightarrow> m = n"
  by (metis nat_of_digits_str)

lemma topic_name_inj: "inj topic_name"
  by (rule injI) (simp add: topic_name_def str_of_nat_inj)

lemma no_quote_in_filename: "CHR 0x22 \<notin> set (topic_name i @ ''.dita'')"
  using str_of_nat_digits [of i] by (auto simp: topic_name_def)


section \<open>The topics written and the map\<close>

lemma index_step_entries:
  "map entry_of (files_to_process st) = file_to_topic st \<Longrightarrow>
   map entry_of (files_to_process (index_step bp st l)) = file_to_topic (index_step bp st l)"
  by (simp add: index_step_def register_link_def Let_def entry_of_def)

lemma foldl_index_step_entries:
  "map entry_of (files_to_process st) = file_to_topic st \<Longrightarrow>
   map entry_of (files_to_process (foldl (index_step bp) st ls))
     = file_to_topic (foldl (index_step bp) st ls)"
  by (induction ls arbitrary: st) (simp_all add: index_step_entries)

lemma build_index_entries:
  "map entry_of (files_to_process (build_index bp toc)) = file_to_topic (build_index bp toc)"
proof -
  have "map entry_of (files_to_process initial_state) = file_to_topic initial_state"
    by (simp add: initial_state_def)
  then show ?thesis
    by (auto simp: build_index_def collect_files_def collect_items_foldl
        foldl_index_step_entries split: option.splits)
qed

lemma written_names_of_index:
  "map written_name (files_to_process (build_index bp toc))
     = map (ti_filename \<circ> snd) (file_to_topic (build_index bp toc))"
proof -
  have "map written_name ftp = map (ti_filename \<circ> snd) (map entry_of ftp)" for ftp
    by (induction ftp) (auto simp: written_name_def entry_of_def)
  then show ?thesis by (simp only: build_index_entries)
qed

lemma filenames_of_index:
  "map (ti_filename \<circ> snd) (file_to_topic (build_index bp toc))
     = map (\<lambda>i. topic_name i @ ''.dita'') [1..<Suc (length (file_to_topic (build_index bp toc)))]"
  using build_index_closed [of bp toc] filenames_index_of_encounters [of "encounters bp toc"]
  by simp

lemma distinct_filenames_of_index:
  "distinct (map (ti_filename \<circ> snd) (file_to_topic (build_index bp toc)))"
proof -
  have "inj (\<lambda>i. topic_name i @ ''.dita'')"
    using topic_name_inj by (auto simp: inj_def)
  then show ?thesis
    unfolding filenames_of_index by (simp add: distinct_map inj_on_def inj_def)
qed

lemma no_quote_in_index:
  "info \<in> snd ` set (file_to_topic (build_index bp toc)) \<Longrightarrow> CHR 0x22 \<notin> set (ti_filename info)"
proof -
  assume "info \<in> snd ` set (file_to_topic (build_index bp toc))"
  then have "ti_filename info \<in> set (map (ti_filename \<circ> snd) (file_to_topic (build_index bp toc)))"
    by auto
  then obtain i where "ti_filename info = topic_name i @ ''.dita''"
    unfolding filenames_of_index by auto
  then show ?thesis using no_quote_in_filename [of i] by simp
qed

lemma generate_topics_names:
  "generate_topics env ftt ftp = Inr written \<Longrightarrow> map fst written = map written_name ftp"
proof (induction ftp arbitrary: written)
  case Nil then show ?case by simp
next
  case (Cons e ftp)
  obtain h i t f where e: "e = (h, i, t, f)" by (cases e)
  from Cons.prems obtain c w where "md_to_dita_topic env h i t ftt = Inr c"
    and w: "generate_topics env ftt ftp = Inr w" and wr: "written = (f, c) # w"
    unfolding e by (auto split: sum.splits)
  then show ?case using Cons.IH [OF w] by (simp add: e written_name_def)
qed


lemma generate_topics_total:
  "(\<And>h i t f. (h, i, t, f) \<in> set ftp \<Longrightarrow> \<exists>c. md_to_dita_topic env h i t ftt = Inr c) \<Longrightarrow>
   \<exists>written. generate_topics env ftt ftp = Inr written"
proof (induction ftp)
  case Nil then show ?case by simp
next
  case (Cons e ftp)
  obtain h i t f where e: "e = (h, i, t, f)" by (cases e)
  from Cons.prems [of h i t f] obtain c where c: "md_to_dita_topic env h i t ftt = Inr c"
    unfolding e by auto
  from Cons.IH Cons.prems obtain w where "generate_topics env ftt ftp = Inr w"
    by (metis list.set_intros(2))
  then show ?case using c by (simp add: e)
qed

lemma missing_source:
  "file_at env md_path = Missing \<Longrightarrow>
   md_to_dita_topic env md_path topic_id title ftt = Inr (missing_notice md_path topic_id title)"
  by (simp add: md_to_dita_topic_def missing_notice_def)

lemma unreadable_source:
  "file_at env md_path = Unreadable \<Longrightarrow> md_to_dita_topic env md_path topic_id title ftt = Inl OSError"
  by (simp add: md_to_dita_topic_def)

lemma referenced_files_append [simp]:
  "referenced_files (xs @ ys) = referenced_files xs @ referenced_files ys"
  by (simp add: referenced_files_def List.map_filter_def)

lemma referenced_files_Nil [simp]: "referenced_files [] = []"
  by (simp add: referenced_files_def List.map_filter_def)

lemma referenced_files_single:
  "referenced_files [l] = (case topicref_href l of None \<Rightarrow> [] | Some f \<Rightarrow> [f])"
  by (simp add: referenced_files_def List.map_filter_def split: option.splits)

lemma dropWhile_spaces:
  "spaces indent \<Longrightarrow> dropWhile (\<lambda>c. c = CHR '' '') (indent @ CHR ''<'' # rest) = CHR ''<'' # rest"
  by (induction indent) (simp_all add: spaces_def)

lemma href_of_topicref:
  assumes "spaces indent" "CHR 0x22 \<notin> set fn"
  shows "topicref_href (indent @ ''<topicref href='' @ dq @ fn @ dq @ rest) = Some fn"
proof -
  have "dropWhile (\<lambda>c. c = CHR '' '') (indent @ ''<topicref href='' @ dq @ fn @ dq @ rest)
      = ''<topicref href='' @ dq @ fn @ dq @ rest"
    using dropWhile_spaces [OF assms(1)] by simp
  moreover have "takeWhile (\<lambda>c. c \<noteq> CHR 0x22) (fn @ dq @ rest) = fn"
  proof -
    have "\<And>x. x \<in> set fn \<Longrightarrow> x \<noteq> CHR 0x22" using assms(2) by auto
    then have "takeWhile (\<lambda>c. c \<noteq> CHR 0x22) (fn @ dq @ rest)
        = fn @ takeWhile (\<lambda>c. c \<noteq> CHR 0x22) (dq @ rest)"
      by (rule takeWhile_append2)
    then show ?thesis by (simp add: dq_def)
  qed
  ultimately show ?thesis
    by (simp add: topicref_href_def startswith_def dq_def)
qed

lemma href_of_other:
  assumes "spaces indent" "rest = ''</topicref>'' \<or> rest = ''</topichead>'' \<or> rest = ''<topichead navtitle='' @ x"
  shows "topicref_href (indent @ rest) = None"
proof -
  from assms(2) obtain r where r: "rest = CHR ''<'' # r" by auto
  have "dropWhile (\<lambda>c. c = CHR '' '') (indent @ rest) = rest"
    unfolding r using dropWhile_spaces [OF assms(1)] by simp
  then show ?thesis
    using assms(2) by (auto simp: topicref_href_def startswith_def dq_def)
qed

lemma spaces_more: "spaces indent \<Longrightarrow> spaces (indent @ ''  '')"
  by (simp add: spaces_def)

lemma refs_in_Nil [simp]: "refs_in R []"
  by (simp add: refs_in_def)

lemma refs_in_append [simp]: "refs_in R (xs @ ys) \<longleftrightarrow> refs_in R xs \<and> refs_in R ys"
  by (simp add: refs_in_def)

lemma refs_in_Cons [simp]:
  "refs_in R (x # xs) \<longleftrightarrow>
     (case topicref_href x of None \<Rightarrow> True | Some f \<Rightarrow> f \<in> R) \<and> refs_in R xs"
proof -
  have "referenced_files (x # xs)
      = (case topicref_href x of None \<Rightarrow> referenced_files xs | Some f \<Rightarrow> f # referenced_files xs)"
    by (simp add: referenced_files_def List.map_filter_def split: option.splits)
  then show ?thesis by (simp add: refs_in_def split: option.splits)
qed

lemma build_items_references:
  assumes "\<And>info. info \<in> snd ` set ftt \<Longrightarrow> CHR 0x22 \<notin> set (ti_filename info)"
  shows "spaces indent \<Longrightarrow> refs_in (ti_filename ` snd ` set ftt) (build_items ftt bp lis indent)"
  using assms
proof (induction ftt bp lis indent rule: build_items.induct)
  case (1 ftt base_path indent)
  then show ?case by simp
next
  case (2 ftt base_path li lis indent)
  note sp = \<open>spaces indent\<close>
  note sp2 = spaces_more [OF sp]
  note nq = "2.prems"(2)
  have q: "CHR 0x22 \<notin> set (ti_filename info)" if "map_of ftt k = Some info" for k info
    using that nq by (metis map_of_SomeD image_eqI snd_conv)
  have m: "ti_filename info \<in> ti_filename ` snd ` set ftt" if "map_of ftt k = Some info" for k info
    using that by (metis map_of_SomeD image_eqI snd_conv)
  have closes: "topicref_href (indent @ ''</topicref>'') = None"
    "topicref_href (indent @ ''</topichead>'') = None"
    "\<And>x. topicref_href (indent @ ''<topichead navtitle='' @ x) = None"
    using href_of_other [OF sp] by simp_all
  have opens: "topicref_href (indent @ ''<topicref href='' @ dq @ ti_filename info @ dq @ r)
      = Some (ti_filename info)" if "map_of ftt k = Some info" for k info r
    using href_of_topicref [OF sp q [OF that]] by simp
  note ih = "2.IH"
  show ?case
  proof (cases "find_direct is_a_href li")
    case None
    note link = None
    show ?thesis
    proof (cases "find_direct is_text li")
      case None
      then show ?thesis
        using ih link sp nq
        by (cases "find_direct (named [''ol'', ''ul'']) li") (simp_all add: Let_def)
    next
      case (Some tt)
      show ?thesis
      proof (cases "get_text tt = []")
        case True
        then show ?thesis
          using ih link Some sp nq
          by (cases "find_direct (named [''ol'', ''ul'']) li") (simp_all add: Let_def)
      next
        case False
        note nonempty = False
        show ?thesis
        proof (cases "strip (get_text tt) = []")
          case True
          then show ?thesis
            using ih link Some nonempty sp nq by (simp add: Let_def)
        next
          case False
          then show ?thesis
            using ih link Some nonempty sp sp2 nq closes
            by (cases "find_direct (named [''ol'', ''ul'']) li") (simp_all add: Let_def)
        qed
      qed
    qed
  next
    case (Some a)
    note link = Some
    show ?thesis
    proof (cases "is_url (get_attr_default a ''href'')")
      case True
      then show ?thesis
        using ih link sp nq
        by (cases "find_direct (named [''ol'', ''ul'']) li") (simp_all add: Let_def)
    next
      case False
      note nourl = False
      show ?thesis
      proof (cases "map_of ftt (normalize_path (outline_path base_path (get_attr_default a ''href'')))")
        case None
        then show ?thesis
          using ih link nourl sp nq by (simp add: Let_def)
      next
        case (Some info)
        note o1 = opens [OF Some, of "''>''"]
        note o2 = opens [OF Some, of "''/>''"]
        show ?thesis
          using ih link nourl Some sp sp2 nq closes o1 o2 m [OF Some]
          by (cases "find_direct (named [''ol'', ''ul'']) li") (simp_all add: Let_def)
      qed
    qed
  qed
qed

lemma ditamap_parts_refs:
  "set (referenced_files (ditamap_parts toc bp doc_title (file_to_topic (build_index bp toc))))
     \<subseteq> ti_filename ` snd ` set (file_to_topic (build_index bp toc))"
proof -
  let ?ftt = "file_to_topic (build_index bp toc)"
  have sp: "spaces ''  ''" by (simp add: spaces_def)
  have body: "refs_in (ti_filename ` snd ` set ?ftt) (build_items ?ftt bp lis ''  '')" for lis
    using no_quote_in_index [of _ bp toc] sp by (intro build_items_references) auto
  have h: "topicref_href (''  <title>'' @ x) = None" for x
    by (simp add: topicref_href_def startswith_def dq_def)
  have "refs_in (ti_filename ` snd ` set ?ftt) (ditamap_parts toc bp doc_title ?ftt)"
    using body h
    by (auto simp: ditamap_parts_def build_map_structure_def topicref_href_def startswith_def
        dq_def split: option.splits)
  then show ?thesis by (simp add: refs_in_def)
qed

lemma run_result:
  assumes "build_dita_map env toc bp title = Inr (written, ditamap, doc_title)"
  shows "generate_topics env (file_to_topic (build_index bp toc))
           (files_to_process (build_index bp toc)) = Inr written"
    and "ditamap = join nl (ditamap_parts toc bp doc_title (file_to_topic (build_index bp toc)))"
    and "doc_title = doc_title_of title toc"
  using assms by (auto simp: build_dita_map_def Let_def split: sum.splits)

lemma run_total:
  assumes "generate_topics env (file_to_topic (build_index bp toc))
             (files_to_process (build_index bp toc)) = Inr written"
  shows "build_dita_map env toc bp title
       = Inr (written,
              join nl (ditamap_parts toc bp (doc_title_of title toc) (file_to_topic (build_index bp toc))),
              doc_title_of title toc)"
  using assms by (simp add: build_dita_map_def Let_def)

text \<open>
  C10 (amended). In a run that completes, every part of the map that refers to a topic
  carries the filename of a record of the index, the files written are the filenames of
  the records, each once and in the order of the index, and so every file that the map
  refers to has been written. This holds for every parsed outline, also where an item
  has no direct link. The run completes whenever every indexed source is missing or is
  translated without an error.
\<close>

theorem map_references_written_topics:
  "(build_dita_map env toc bp title = Inr (written, ditamap, doc_title) \<longrightarrow>
      ditamap = join nl (ditamap_parts toc bp doc_title (file_to_topic (build_index bp toc)))
      \<and> set (referenced_files (ditamap_parts toc bp doc_title (file_to_topic (build_index bp toc))))
            \<subseteq> ti_filename ` snd ` set (file_to_topic (build_index bp toc))
      \<and> map fst written = map (ti_filename \<circ> snd) (file_to_topic (build_index bp toc))
      \<and> distinct (map fst written)
      \<and> set (referenced_files (ditamap_parts toc bp doc_title (file_to_topic (build_index bp toc))))
            \<subseteq> fst ` set written)
   \<and> ((\<forall>e \<in> set (files_to_process (build_index bp toc)).
          file_at env (fst e) = Missing
          \<or> (\<exists>c. md_to_dita_topic env (fst e) (fst (snd e)) (fst (snd (snd e)))
                    (file_to_topic (build_index bp toc)) = Inr c))
        \<longrightarrow> (\<exists>written. build_dita_map env toc bp title
               = Inr (written,
                      join nl (ditamap_parts toc bp (doc_title_of title toc)
                                 (file_to_topic (build_index bp toc))),
                      doc_title_of title toc)))"
proof -
  let ?st = "build_index bp toc"
  let ?ftt = "file_to_topic ?st"
  have a: "ditamap = join nl (ditamap_parts toc bp doc_title ?ftt)
      \<and> set (referenced_files (ditamap_parts toc bp doc_title ?ftt)) \<subseteq> ti_filename ` snd ` set ?ftt
      \<and> map fst written = map (ti_filename \<circ> snd) ?ftt
      \<and> distinct (map fst written)
      \<and> set (referenced_files (ditamap_parts toc bp doc_title ?ftt)) \<subseteq> fst ` set written"
    if run: "build_dita_map env toc bp title = Inr (written, ditamap, doc_title)"
  proof -
    note g = run_result [OF run]
    have names: "map fst written = map (ti_filename \<circ> snd) ?ftt"
      using generate_topics_names [OF g(1)] written_names_of_index [of bp toc] by simp
    have d: "distinct (map fst written)"
      unfolding names by (rule distinct_filenames_of_index)
    have "ti_filename ` snd ` set ?ftt = set (map (ti_filename \<circ> snd) ?ftt)"
      by (simp add: image_image)
    also have "\<dots> = fst ` set written" unfolding names [symmetric] by simp
    finally have "set (referenced_files (ditamap_parts toc bp doc_title ?ftt)) \<subseteq> fst ` set written"
      using ditamap_parts_refs [of toc bp doc_title] by simp
    with g(2) names d ditamap_parts_refs [of toc bp doc_title] show ?thesis by blast
  qed
  have b: "\<exists>written. build_dita_map env toc bp title
               = Inr (written, join nl (ditamap_parts toc bp (doc_title_of title toc) ?ftt),
                      doc_title_of title toc)"
    if ok: "\<forall>e \<in> set (files_to_process ?st). file_at env (fst e) = Missing
          \<or> (\<exists>c. md_to_dita_topic env (fst e) (fst (snd e)) (fst (snd (snd e))) ?ftt = Inr c)"
  proof -
    have "\<exists>written. generate_topics env ?ftt (files_to_process ?st) = Inr written"
    proof (rule generate_topics_total)
      fix h i t f assume "(h, i, t, f) \<in> set (files_to_process ?st)"
      with ok have "file_at env h = Missing \<or> (\<exists>c. md_to_dita_topic env h i t ?ftt = Inr c)"
        by fastforce
      then show "\<exists>c. md_to_dita_topic env h i t ?ftt = Inr c"
        using missing_source by blast
    qed
    then show ?thesis using run_total by blast
  qed
  from a b show ?thesis by blast
qed

text \<open>
  The second source of \<open>late_outline\<close> is a directory: it exists and cannot be opened.
  The run ends with the error after the first topic file, so the second record of the
  index has no file and no map is written.
\<close>

theorem unreadable_source_ends_run:
  "map fst (file_to_topic (build_index ''md'' [ol_of late_outline]))
     = [''md/guide/intro.md'', ''md/guide'']
   \<and> files_to_process (build_index ''md'' [ol_of late_outline])
     = [(''md/./guide/intro.md'', ''topic_1'', ''Intro'', ''topic_1.dita''),
        (''md/./guide/'', ''topic_2'', ''Guide'', ''topic_2.dita'')]
   \<and> file_at directory_env ''md/./guide/'' = Unreadable
   \<and> build_dita_map directory_env [ol_of late_outline] ''md'' None = Inl OSError
   \<and> map fst (written_files directory_env (file_to_topic (build_index ''md'' [ol_of late_outline]))
        (files_to_process (build_index ''md'' [ol_of late_outline])))
     = [''topic_1.dita'']"
  by code_simp

theorem map_references_written_topics_witness:
  "(\<exists>written ditamap doc_title.
      build_dita_map missing_env loose_toc ''md'' None = Inr (written, ditamap, doc_title)
      \<and> map fst written = [''topic_1.dita'', ''topic_2.dita'']
      \<and> referenced_files (ditamap_parts loose_toc ''md'' doc_title
           (file_to_topic (build_index ''md'' loose_toc))) = [''topic_2.dita''])"
proof -
  let ?st = "build_index ''md'' loose_toc"
  have ftp: "files_to_process ?st
      = [(''md/./a.md'', ''topic_1'', ''A'', ''topic_1.dita''),
         (''md/./b.md'', ''topic_2'', ''B'', ''topic_2.dita'')]"
    by code_simp
  have fns: "map (ti_filename \<circ> snd) (file_to_topic ?st) = [''topic_1.dita'', ''topic_2.dita'']"
    by code_simp
  have refs: "referenced_files (ditamap_parts loose_toc ''md'' (doc_title_of None loose_toc)
           (file_to_topic ?st)) = [''topic_2.dita'']"
    by code_simp
  have h: "\<forall>e \<in> set (files_to_process ?st).
          file_at missing_env (fst e) = Missing
          \<or> (\<exists>c. md_to_dita_topic missing_env (fst e) (fst (snd e)) (fst (snd (snd e)))
                    (file_to_topic ?st) = Inr c)"
    by (simp add: ftp missing_env_def)
  from map_references_written_topics [of missing_env loose_toc "''md''" None] h
  obtain written where w: "build_dita_map missing_env loose_toc ''md'' None
      = Inr (written, join nl (ditamap_parts loose_toc ''md'' (doc_title_of None loose_toc)
                                 (file_to_topic ?st)), doc_title_of None loose_toc)"
    by blast
  from map_references_written_topics [of missing_env loose_toc "''md''" None written
      "join nl (ditamap_parts loose_toc ''md'' (doc_title_of None loose_toc) (file_to_topic ?st))"
      "doc_title_of None loose_toc"] w
  have "map fst written = map (ti_filename \<circ> snd) (file_to_topic ?st)" by blast
  with w refs fns show ?thesis by auto
qed




section \<open>Links in a translated document\<close>























end
